theory Spec2Isabelle
  imports
    Main
    "HOL-Library.Sublist"
    "HOL-Library.List_Lexorder"
    "HOL-Library.Multiset"
begin

section \<open>JavaScript strings\<close>

text \<open>
  A JavaScript string is a sequence of UTF-16 code units. A code unit is modelled by its
  numeric value, a natural number (the values the program meets are below 65536; nothing
  below depends on the bound). Equality of strings is equality of the sequences, and the
  order of the default \<^verbatim>\<open>Array.prototype.sort()\<close> on strings, code unit by code unit
  with a proper prefix before its extensions, is the lexicographic order on lists.
\<close>

type_synonym jsstring = "nat list"

text \<open>
  ASCII text of the source is embedded character by character. Single characters are
  written by their code: 10 is the line feed, 32 the space, 34 the double quote, 44 the
  comma, 45 the hyphen and 46 the full stop.
\<close>

definition js :: "string \<Rightarrow> jsstring" where
  "js s = map of_char s"

text \<open>\<^verbatim>\<open>String.prototype.includes\<close>: the search string occurs as a contiguous run.\<close>

definition includes_str :: "jsstring \<Rightarrow> jsstring \<Rightarrow> bool" where
  "includes_str s searchString = sublist searchString s"

text \<open>\<^verbatim>\<open>String.prototype.startsWith\<close>.\<close>

definition startsWith :: "jsstring \<Rightarrow> jsstring \<Rightarrow> bool" where
  "startsWith s searchString = prefix searchString s"

text \<open>\<^verbatim>\<open>String.prototype.endsWith\<close>.\<close>

definition endsWith :: "jsstring \<Rightarrow> jsstring \<Rightarrow> bool" where
  "endsWith s searchString = suffix searchString s"

text \<open>\<^verbatim>\<open>Array.prototype.join\<close> on an array of strings.\<close>

fun join :: "jsstring list \<Rightarrow> jsstring \<Rightarrow> jsstring" where
  "join [] sep = []"
| "join [x] sep = x"
| "join (x # y # ys) sep = x @ sep @ join (y # ys) sep"

text \<open>
  The white space of ECMAScript (WhiteSpace and LineTerminator), which is both what
  \<^verbatim>\<open>trim()\<close> removes and what the regular expression class \<^verbatim>\<open>\s\<close> matches:
  TAB, LF, VT, FF, CR, SPACE, NBSP, U+1680, U+2000 to U+200A, U+2028, U+2029, U+202F,
  U+205F, U+3000 and U+FEFF.
\<close>

definition isWhiteSpace :: "nat \<Rightarrow> bool" where
  "isWhiteSpace c \<longleftrightarrow>
     (9 \<le> c \<and> c \<le> 13) \<or> c = 32 \<or> c = 160 \<or> c = 5760 \<or> (8192 \<le> c \<and> c \<le> 8202) \<or>
     c = 8232 \<or> c = 8233 \<or> c = 8239 \<or> c = 8287 \<or> c = 12288 \<or> c = 65279"

definition trim :: "jsstring \<Rightarrow> jsstring" where
  "trim s = rev (dropWhile isWhiteSpace (rev (dropWhile isWhiteSpace s)))"

text \<open>
  \<^verbatim>\<open>s.replace(/C+/g, r)\<close> for a character class \<open>C\<close>: every maximal run of characters
  of the class is replaced by \<open>r\<close>.
\<close>

function replaceRuns :: "(nat \<Rightarrow> bool) \<Rightarrow> jsstring \<Rightarrow> jsstring \<Rightarrow> jsstring" where
  "replaceRuns C r [] = []"
| "replaceRuns C r (c # s) =
     (if C c then r @ replaceRuns C r (dropWhile C s) else c # replaceRuns C r s)"
  by pat_completeness auto
termination
  by (relation "measure (\<lambda>(C, r, s). length s)") (auto simp: le_imp_less_Suc length_dropWhile_le)

text \<open>The hyphen-minus, and the class \<^verbatim>\<open>[a-z0-9-]\<close>.\<close>

definition hyphen :: nat where
  "hyphen = 45"

definition isNameChar :: "nat \<Rightarrow> bool" where
  "isNameChar c \<longleftrightarrow> (97 \<le> c \<and> c \<le> 122) \<or> (48 \<le> c \<and> c \<le> 57) \<or> c = hyphen"

text \<open>
  \<^verbatim>\<open>s.replace(/^-|-$/g, '')\<close>: the global search removes a hyphen at position 0, then,
  in what follows it, a hyphen at the end.
\<close>

definition stripEdgeHyphens :: "jsstring \<Rightarrow> jsstring" where
  "stripEdgeHyphens s =
     (let s1 = (case s of [] \<Rightarrow> [] | c # r \<Rightarrow> if c = hyphen then r else s)
      in if s1 \<noteq> [] \<and> last s1 = hyphen then butlast s1 else s1)"

text \<open>
  \<^verbatim>\<open>String.prototype.toLowerCase\<close> is the Unicode case conversion of the platform
  and is not part of the repository: the functions below take it as the parameter
  \<open>toLowerCase\<close>. The conversion restricted to ASCII text is \<open>asciiToLowerCase\<close>; it
  stands for the parameter wherever a concrete run on ASCII text is evaluated.
\<close>

definition asciiToLowerCase :: "jsstring \<Rightarrow> jsstring" where
  "asciiToLowerCase s = map (\<lambda>c. if 65 \<le> c \<and> c \<le> 90 then c + 32 else c) s"

text \<open>Decimal digits of a natural number, and \<^verbatim>\<open>String(n)\<close> for an integral Number.\<close>

fun digits :: "nat \<Rightarrow> jsstring" where
  "digits n = (if n < 10 then [48 + n] else digits (n div 10) @ [48 + n mod 10])"

definition numberToString :: "int \<Rightarrow> jsstring" where
  "numberToString i = (if i < 0 then hyphen # digits (nat (- i)) else digits (nat i))"

definition isDigit :: "nat \<Rightarrow> bool" where
  "isDigit c \<longleftrightarrow> 48 \<le> c \<and> c \<le> 57"


section \<open>The generation service (services/geminiService.ts)\<close>

text \<open>
  The clean-up of the proposed file name in \<^verbatim>\<open>generateImageDetails\<close>:
  \<^verbatim>\<open>(jsonResponse.filename || '').trim().toLowerCase().replace(/\s+/g, '-')
    .replace(/[^a-z0-9-]/g, '').replace(/-+/g, '-').replace(/^-|-$/g, '')\<close>
\<close>

definition cleanedFilename :: "(jsstring \<Rightarrow> jsstring) \<Rightarrow> jsstring \<Rightarrow> jsstring" where
  "cleanedFilename toLowerCase raw =
     stripEdgeHyphens
       (replaceRuns (\<lambda>c. c = hyphen) [hyphen]
         (filter isNameChar
           (replaceRuns isWhiteSpace [hyphen]
             (toLowerCase (trim raw)))))"

text \<open>
  A thrown value, as far as the program looks at it: an \<^verbatim>\<open>Error\<close> instance with its
  \<^verbatim>\<open>name\<close> and \<^verbatim>\<open>message\<close>; or another value that has a
  \<^verbatim>\<open>JSON.stringify\<close> text, given by that text; or another value that has none, because
  \<^verbatim>\<open>JSON.stringify\<close> returns \<^verbatim>\<open>undefined\<close> for it (\<^verbatim>\<open>undefined\<close> itself, a
  function, a symbol) or throws (a circular structure, a BigInt). In the last case the
  evaluation of \<^verbatim>\<open>JSON.stringify(error).toLowerCase()\<close> raises a \<^verbatim>\<open>TypeError\<close>, and the
  value is given by the message of that \<^verbatim>\<open>TypeError\<close>, whose wording is the engine's.
\<close>

datatype thrown = ErrorObject jsstring jsstring | NonError jsstring | NoJsonText jsstring

definition newError :: "jsstring \<Rightarrow> thrown" where
  "newError msg = ErrorObject (js ''Error'') msg"

text \<open>
  \<^verbatim>\<open>error instanceof Error ? error.toString() : JSON.stringify(error)\<close>, with
  \<^verbatim>\<open>Error.prototype.toString\<close> joining name and message by a colon and a space: the
  text, or the \<^verbatim>\<open>TypeError\<close> that is raised where there is none.
\<close>

fun thrownText :: "thrown \<Rightarrow> thrown + jsstring" where
  "thrownText (ErrorObject n m) =
     Inr (if n = [] then m else if m = [] then n else n @ js '': '' @ m)"
| "thrownText (NonError j) = Inr j"
| "thrownText (NoJsonText typeErrorMessage) = Inl (ErrorObject (js ''TypeError'') typeErrorMessage)"

text \<open>The object \<^verbatim>\<open>{ filename, keywords }\<close> that the service resolves to.\<close>

record ImageDetails =
  filename :: jsstring
  keywords' :: "jsstring list"

text \<open>
  What happens inside the \<^verbatim>\<open>try\<close> block: the call
  \<^verbatim>\<open>ai.models.generateContent\<close> rejects; or it resolves and reading the response
  (\<^verbatim>\<open>JSON.parse(response.text)\<close>) throws; or the response is parsed, with
  \<^verbatim>\<open>jsonResponse.filename\<close> and \<^verbatim>\<open>jsonResponse.keywords\<close> present or not. A parsed
  response has the types of the declared result, \<^verbatim>\<open>{ filename: string; keywords: string[] }\<close>,
  which the response schema of the request asks for; the program does not check them.
\<close>

datatype tryOutcome =
    CallRejected thrown
  | MalformedResponse thrown
  | Parsed "jsstring option" "jsstring list option"

text \<open>
  Everything the environment answers during one call of \<^verbatim>\<open>generateImageDetails\<close>:
  whether \<^verbatim>\<open>process.env.API_KEY\<close> is set; the outcome of \<^verbatim>\<open>toBase64(file)\<close>
  (of \<^verbatim>\<open>utils/fileUtils\<close>): rejected, or resolved to a string or to something else;
  the outcome of the \<^verbatim>\<open>try\<close> block; and \<^verbatim>\<open>Date.now()\<close>. The arguments
  \<^verbatim>\<open>file\<close>, \<^verbatim>\<open>wordLimit\<close> and \<^verbatim>\<open>userKeywords\<close> only shape the request
  that is sent.
\<close>

record ServiceReply =
  apiKeyConfigured :: bool
  base64Data :: "thrown + jsstring option"
  tryBody :: tryOutcome
  dateNow :: int

text \<open>\<^verbatim>\<open>base64Data.split(',')[1]\<close>: the text between the first and the second comma.\<close>

definition splitComma1 :: "jsstring \<Rightarrow> jsstring option" where
  "splitComma1 s =
     (case dropWhile (\<lambda>c. c \<noteq> 44) s of
        [] \<Rightarrow> None
      | _ # r \<Rightarrow> Some (takeWhile (\<lambda>c. c \<noteq> 44) r))"

definition rateLimitMessage :: jsstring where
  "rateLimitMessage = js ''Rate limit exceeded. Please wait and retry.''"

definition genericFailureMessage :: jsstring where
  "genericFailureMessage = js ''Failed to generate details from AI service.''"

text \<open>The \<^verbatim>\<open>catch\<close> block of the service: what it throws for the value it caught.\<close>

definition hasRateLimitMarker :: "jsstring \<Rightarrow> bool" where
  "hasRateLimitMarker errorText \<longleftrightarrow>
     includes_str errorText (js ''429'') \<or> includes_str errorText (js ''resource_exhausted'') \<or>
     includes_str errorText (js ''rate limit'')"

definition catchBlock :: "(jsstring \<Rightarrow> jsstring) \<Rightarrow> thrown \<Rightarrow> thrown" where
  "catchBlock toLowerCase err =
     (case thrownText err of
        Inl typeError \<Rightarrow> typeError
      | Inr text \<Rightarrow>
          (let errorText = toLowerCase text
           in if hasRateLimitMarker errorText then newError rateLimitMessage
              else newError genericFailureMessage))"

definition generateImageDetails ::
  "(jsstring \<Rightarrow> jsstring) \<Rightarrow> ServiceReply \<Rightarrow> thrown + ImageDetails" where
  "generateImageDetails toLowerCase reply =
     (if \<not> apiKeyConfigured reply then
        Inl (newError (js ''API key is not configured. Please set the API_KEY environment variable.''))
      else case base64Data reply of
        Inl rejected \<Rightarrow> Inl rejected
      | Inr None \<Rightarrow> Inl (newError (js ''Failed to read image data.''))
      | Inr (Some dataUrl) \<Rightarrow>
          (if splitComma1 dataUrl = None \<or> splitComma1 dataUrl = Some [] then
             Inl (newError (js ''Invalid base64 data from file.''))
           else case tryBody reply of
             CallRejected err \<Rightarrow> Inl (catchBlock toLowerCase err)
           | MalformedResponse err \<Rightarrow> Inl (catchBlock toLowerCase err)
           | Parsed jsonFilename jsonKeywords \<Rightarrow>
               (let cleaned = cleanedFilename toLowerCase
                                (case jsonFilename of None \<Rightarrow> [] | Some f \<Rightarrow> f);
                    kws = (case jsonKeywords of None \<Rightarrow> [] | Some k \<Rightarrow> k)
                in if cleaned = [] then
                     Inr \<lparr>filename = js ''image-'' @ numberToString (dateNow reply), keywords' = kws\<rparr>
                   else Inr \<lparr>filename = cleaned, keywords' = kws\<rparr>)))"


section \<open>The application state (App.tsx)\<close>

record File =
  name :: jsstring
  type :: jsstring
  lastModified :: int

record ProcessedImage =
  id' :: jsstring
  "file" :: File
  imageUrl :: jsstring
  originalExtension :: jsstring
  suggestedName :: jsstring
  isLoading :: bool
  error :: "jsstring option"
  "keywords" :: "jsstring list"

text \<open>\<^verbatim>\<open>processedImages.filter(img => !!img.suggestedName)\<close>: a string is truthy when it is not empty.\<close>

definition successfulImages :: "ProcessedImage list \<Rightarrow> ProcessedImage list" where
  "successfulImages processedImages = filter (\<lambda>img. suggestedName img \<noteq> []) processedImages"

subsection \<open>Upload\<close>

text \<open>\<^verbatim>\<open>s.lastIndexOf(c)\<close> for a one-character search string: the last position, or -1.\<close>

fun lastIndexOf :: "jsstring \<Rightarrow> nat \<Rightarrow> int" where
  "lastIndexOf [] c = - 1"
| "lastIndexOf (x # xs) c =
     (let i = lastIndexOf xs c in if 0 \<le> i then i + 1 else if x = c then 0 else - 1)"

text \<open>\<^verbatim>\<open>s.slice(start)\<close>: a negative start counts from the end, and both ends are clamped.\<close>

definition slice :: "jsstring \<Rightarrow> int \<Rightarrow> jsstring" where
  "slice s start =
     (let len = int (length s);
          from = (if start < 0 then max (len + start) 0 else min start len)
      in drop (nat from) s)"

definition fileExt :: "jsstring \<Rightarrow> jsstring" where
  "fileExt fileName = slice fileName (lastIndexOf fileName 46)"

text \<open>
  An uploaded file together with what the environment returns while its item is built:
  \<^verbatim>\<open>URL.createObjectURL(file)\<close> and the text of \<^verbatim>\<open>Math.random()\<close> in the
  template string.
\<close>

record Upload =
  uploaded :: File
  objectUrl :: jsstring
  random :: jsstring

definition newImage :: "Upload \<Rightarrow> ProcessedImage" where
  "newImage u =
     \<lparr>id' = name (uploaded u) @ [hyphen] @ numberToString (lastModified (uploaded u)) @ [hyphen] @ random u,
      file = uploaded u,
      imageUrl = objectUrl u,
      originalExtension = fileExt (name (uploaded u)),
      suggestedName = [],
      isLoading = False,
      error = None,
      keywords = []\<rparr>"

definition accepted :: "Upload list \<Rightarrow> Upload list" where
  "accepted files = filter (\<lambda>u. startsWith (type (uploaded u)) (js ''image/'')) files"

definition handleImageUpload :: "Upload list \<Rightarrow> ProcessedImage list \<Rightarrow> ProcessedImage list" where
  "handleImageUpload files prev =
     (let newImages = map newImage (accepted files)
      in if length newImages > 0 then prev @ newImages else prev)"

subsection \<open>Generation of one name\<close>

text \<open>
  The three state updaters of \<^verbatim>\<open>handleGenerateNameForImage\<close>, each the function handed
  to \<^verbatim>\<open>setProcessedImages\<close>: at the start of the request, on success, on failure.
  React applies an updater to the collection as it is at that moment (\<open>prev\<close>).
\<close>

definition markLoading :: "jsstring \<Rightarrow> ProcessedImage list \<Rightarrow> ProcessedImage list" where
  "markLoading ident prev =
     map (\<lambda>img. if id' img = ident then img\<lparr>isLoading := True, error := None\<rparr> else img) prev"

definition applyDetails ::
  "jsstring \<Rightarrow> ImageDetails \<Rightarrow> ProcessedImage list \<Rightarrow> ProcessedImage list" where
  "applyDetails ident details prev =
     map (\<lambda>img. if id' img = ident
                then img\<lparr>suggestedName := filename details,
                         keywords := sort (keywords' details),
                         isLoading := False\<rparr>
                else img) prev"

definition applyError :: "jsstring \<Rightarrow> jsstring \<Rightarrow> ProcessedImage list \<Rightarrow> ProcessedImage list" where
  "applyError ident errorMessage prev =
     map (\<lambda>img. if id' img = ident then img\<lparr>isLoading := False, error := Some errorMessage\<rparr> else img)
       prev"

text \<open>\<^verbatim>\<open>err instanceof Error ? err.message : 'An unknown error occurred.'\<close>\<close>

fun errorMessageOf :: "thrown \<Rightarrow> jsstring" where
  "errorMessageOf (ErrorObject n m) = m"
| "errorMessageOf (NonError j) = js ''An unknown error occurred.''"
| "errorMessageOf (NoJsonText typeErrorMessage) = js ''An unknown error occurred.''"

text \<open>
  What a run of the application leaves behind: the live collection, and the log of what
  happened in time, in that order: \<open>GenerateCall ident\<close> when \<^verbatim>\<open>generateImageDetails\<close> is
  called for the item, \<open>GenerateSettled ident\<close> when its promise has settled and the result
  has been applied, and \<open>Pause ms\<close> for a timer of \<open>ms\<close> milliseconds that has run out.
\<close>

datatype event = GenerateCall jsstring | GenerateSettled jsstring | Pause nat

record run =
  live :: "ProcessedImage list"
  events :: "event list"

text \<open>
  \<^verbatim>\<open>handleGenerateNameForImage(id)\<close>. The handler is a closure: \<open>processedImages\<close>
  is the collection of the render that created it, in which the item is looked up, whereas
  the updaters act on the live collection. \<open>reply\<close> is what the environment answers to the
  call of the service, and \<open>meanwhile\<close> is what the other handlers do to the live collection
  while the call is awaited.
\<close>

definition handleGenerateNameForImage ::
  "(jsstring \<Rightarrow> jsstring) \<Rightarrow> ProcessedImage list \<Rightarrow> ServiceReply \<Rightarrow>
   (ProcessedImage list \<Rightarrow> ProcessedImage list) \<Rightarrow> jsstring \<Rightarrow> run \<Rightarrow> run" where
  "handleGenerateNameForImage toLowerCase processedImages reply meanwhile ident r =
     (case find (\<lambda>img. id' img = ident) processedImages of
        None \<Rightarrow> r
      | Some imageToProcess \<Rightarrow>
          (let started = markLoading ident (live r);
               awaited = meanwhile started;
               settled =
                 (case generateImageDetails toLowerCase reply of
                    Inr details \<Rightarrow> applyDetails ident details awaited
                  | Inl err \<Rightarrow> applyError ident (errorMessageOf err) awaited)
           in \<lparr>live = settled, events = events r @ [GenerateCall ident, GenerateSettled ident]\<rparr>))"

subsection \<open>Generation of all names\<close>

text \<open>
  The loop of \<^verbatim>\<open>handleGenerateAllNames\<close> over \<open>imagesToProcess\<close>. The \<open>k\<close>-th turn
  gets the reply \<open>replies k\<close>; the other handlers act on the live collection by
  \<open>meanwhile (2 * k)\<close> during the call and by \<open>meanwhile (2 * k + 1)\<close> during the pause of
  1100 ms that follows.
\<close>

fun generateLoop ::
  "(jsstring \<Rightarrow> jsstring) \<Rightarrow> ProcessedImage list \<Rightarrow> (nat \<Rightarrow> ServiceReply) \<Rightarrow>
   (nat \<Rightarrow> ProcessedImage list \<Rightarrow> ProcessedImage list) \<Rightarrow> nat \<Rightarrow> ProcessedImage list \<Rightarrow> run \<Rightarrow> run" where
  "generateLoop toLowerCase processedImages replies meanwhile k [] r = r"
| "generateLoop toLowerCase processedImages replies meanwhile k (img # rest) r =
     (let r1 = handleGenerateNameForImage toLowerCase processedImages (replies k)
                 (meanwhile (2 * k)) (id' img) r;
          r2 = \<lparr>live = meanwhile (2 * k + 1) (live r1), events = events r1 @ [Pause 1100]\<rparr>
      in generateLoop toLowerCase processedImages replies meanwhile (Suc k) rest r2)"

definition imagesToProcess :: "ProcessedImage list \<Rightarrow> ProcessedImage list" where
  "imagesToProcess processedImages =
     filter (\<lambda>img. suggestedName img = [] \<and> \<not> isLoading img) processedImages"

definition handleGenerateAllNames ::
  "(jsstring \<Rightarrow> jsstring) \<Rightarrow> ProcessedImage list \<Rightarrow> (nat \<Rightarrow> ServiceReply) \<Rightarrow>
   (nat \<Rightarrow> ProcessedImage list \<Rightarrow> ProcessedImage list) \<Rightarrow> run \<Rightarrow> run" where
  "handleGenerateAllNames toLowerCase processedImages replies meanwhile r =
     generateLoop toLowerCase processedImages replies meanwhile 0 (imagesToProcess processedImages) r"

subsection \<open>Removing, renaming, keywords\<close>

definition handleClearAll :: "ProcessedImage list \<Rightarrow> ProcessedImage list" where
  "handleClearAll prev = []"

definition handleRemoveImage :: "jsstring \<Rightarrow> ProcessedImage list \<Rightarrow> ProcessedImage list" where
  "handleRemoveImage ident prev = filter (\<lambda>img. id' img \<noteq> ident) prev"

definition handleNameChange :: "jsstring \<Rightarrow> jsstring \<Rightarrow> ProcessedImage list \<Rightarrow> ProcessedImage list" where
  "handleNameChange ident newName prev =
     map (\<lambda>img. if id' img = ident then img\<lparr>suggestedName := newName\<rparr> else img) prev"

text \<open>The body shared by \<^verbatim>\<open>handleAddKeywords\<close> and \<^verbatim>\<open>handleAddKeywordsToAll\<close>.\<close>

definition addKeywordsTo :: "jsstring list \<Rightarrow> ProcessedImage \<Rightarrow> ProcessedImage" where
  "addKeywordsTo keywordsToAdd img =
     (let newKeywords = filter (\<lambda>k. k \<notin> set (keywords img)) keywordsToAdd
      in if length newKeywords > 0
         then img\<lparr>keywords := sort (keywords img @ newKeywords)\<rparr>
         else img)"

definition handleAddKeywords ::
  "jsstring \<Rightarrow> jsstring list \<Rightarrow> ProcessedImage list \<Rightarrow> ProcessedImage list" where
  "handleAddKeywords ident keywordsToAdd prev =
     map (\<lambda>img. if id' img = ident then addKeywordsTo keywordsToAdd img else img) prev"

text \<open>
  \<^verbatim>\<open>handleAddKeywordsToAll\<close>: \<open>confirmed\<close> is the answer of \<^verbatim>\<open>window.confirm\<close>, and
  \<open>processedImages\<close> is the collection of the render, from which \<open>successfulImages\<close> is
  computed.
\<close>

definition handleAddKeywordsToAll ::
  "bool \<Rightarrow> jsstring list \<Rightarrow> ProcessedImage list \<Rightarrow> ProcessedImage list \<Rightarrow> ProcessedImage list" where
  "handleAddKeywordsToAll confirmed keywordsToAdd processedImages prev =
     (if length keywordsToAdd = 0 \<or> length (successfulImages processedImages) = 0 then prev
      else if \<not> confirmed then prev
      else map (\<lambda>img. if suggestedName img \<noteq> [] then addKeywordsTo keywordsToAdd img else img) prev)"

definition handleRemoveKeyword ::
  "jsstring \<Rightarrow> jsstring \<Rightarrow> ProcessedImage list \<Rightarrow> ProcessedImage list" where
  "handleRemoveKeyword ident keywordToRemove prev =
     map (\<lambda>img. if id' img = ident
                then img\<lparr>keywords := filter (\<lambda>k. k \<noteq> keywordToRemove) (keywords img)\<rparr>
                else img) prev"

subsection \<open>Export\<close>

text \<open>
  \<^verbatim>\<open>Array.prototype.sort(comparefn)\<close>. The sort is stable, and for a consistent
  comparison function its result is the one stable sorted arrangement, which insertion
  computes: \<open>a\<close> goes before the first \<open>b\<close> with \<open>comparefn a b \<le> 0\<close>.
\<close>

fun insertSorted :: "('a \<Rightarrow> 'a \<Rightarrow> int) \<Rightarrow> 'a \<Rightarrow> 'a list \<Rightarrow> 'a list" where
  "insertSorted comparefn a [] = [a]"
| "insertSorted comparefn a (b # bs) =
     (if comparefn a b \<le> 0 then a # b # bs else b # insertSorted comparefn a bs)"

definition arraySort :: "('a \<Rightarrow> 'a \<Rightarrow> int) \<Rightarrow> 'a list \<Rightarrow> 'a list" where
  "arraySort comparefn xs = foldr (insertSorted comparefn) xs []"

text \<open>The name under which an item is exported (\<open>newFilename\<close> in \<^verbatim>\<open>handleDownloadAll\<close>).\<close>

definition newFilename :: "ProcessedImage \<Rightarrow> jsstring" where
  "newFilename img = suggestedName img @ originalExtension img"

definition csvRow :: "ProcessedImage \<Rightarrow> jsstring" where
  "csvRow img =
     (let newName = [34] @ suggestedName img @ originalExtension img @ [34];
          kws = [34] @ join (keywords img) (js '', '') @ [34]
      in newName @ js '','' @ kws)"

text \<open>
  \<^verbatim>\<open>handleDownloadCsv\<close>: the content of the file that is offered for download, or
  nothing when the handler returns at its first line. \<open>localeCompare\<close> is the collation of
  the platform, a parameter.
\<close>

definition handleDownloadCsv ::
  "(jsstring \<Rightarrow> jsstring \<Rightarrow> int) \<Rightarrow> ProcessedImage list \<Rightarrow> jsstring option" where
  "handleDownloadCsv localeCompare processedImages =
     (if length (successfulImages processedImages) = 0 then None
      else
        (let sortedData = arraySort (\<lambda>a b. localeCompare (suggestedName a) (suggestedName b))
                            (successfulImages processedImages);
             header = js ''New File Name,Keywords'' @ [10];
             rows = map csvRow sortedData
         in Some (header @ join rows [10])))"

subsection \<open>Sessions\<close>

text \<open>
  The handlers that create and destroy items, as the actions of a session that starts with
  the empty collection.
\<close>

datatype action = ImageUpload "Upload list" | RemoveImage jsstring | ClearAll

fun perform :: "ProcessedImage list \<Rightarrow> action \<Rightarrow> ProcessedImage list" where
  "perform prev (ImageUpload files) = handleImageUpload files prev"
| "perform prev (RemoveImage ident) = handleRemoveImage ident prev"
| "perform prev ClearAll = handleClearAll prev"

definition session :: "action list \<Rightarrow> ProcessedImage list" where
  "session actions = foldl perform [] actions"

text \<open>The uploads of a session that pass the filter, in the order of their creation.\<close>

fun created :: "action list \<Rightarrow> Upload list" where
  "created [] = []"
| "created (ImageUpload files # actions) = accepted files @ created actions"
| "created (a # actions) = created actions"

text \<open>
  Random texts that keep identities apart: no two are equal, and none ends with a hyphen
  followed by another one.
\<close>

definition apart :: "jsstring list \<Rightarrow> bool" where
  "apart rs \<longleftrightarrow> distinct rs \<and> (\<forall>r\<in>set rs. \<forall>r'\<in>set rs. \<not> endsWith r' (hyphen # r))"

text \<open>The invariants of the keyword collections.\<close>

definition keywordsSorted :: "ProcessedImage list \<Rightarrow> bool" where
  "keywordsSorted images \<longleftrightarrow> (\<forall>img\<in>set images. sorted (keywords img))"

definition keywordsDistinct :: "ProcessedImage list \<Rightarrow> bool" where
  "keywordsDistinct images \<longleftrightarrow> (\<forall>img\<in>set images. distinct (keywords img))"

subsection \<open>Sample data\<close>

text \<open>Concrete inputs on which the theorems below are instantiated.\<close>

definition sampleReply :: ServiceReply where
  "sampleReply =
     \<lparr>apiKeyConfigured = True,
      base64Data = Inr (Some (js ''data:image/jpeg;base64,AAAA'')),
      tryBody = Parsed (Some (js ''  My  Photo!! -'')) (Some [js ''sea'', js ''beach'', js ''sea'']),
      dateNow = 1700000000000\<rparr>"

definition unusableReply :: ServiceReply where
  "unusableReply =
     \<lparr>apiKeyConfigured = True,
      base64Data = Inr (Some (js ''data:image/jpeg;base64,AAAA'')),
      tryBody = Parsed (Some (js '' ?!? '')) None,
      dateNow = 1700000000000\<rparr>"

definition renamedImage :: ProcessedImage where
  "renamedImage =
     \<lparr>id' = js ''a.png-1-0.5'',
      file = \<lparr>name = js ''a.png'', type = js ''image/png'', lastModified = 1\<rparr>,
      imageUrl = js ''blob:a'',
      originalExtension = js ''.png'',
      suggestedName = js ''sunset-walk'',
      isLoading = False,
      error = None,
      keywords = [js ''beach'', js ''sunset'']\<rparr>"

definition pendingImage :: ProcessedImage where
  "pendingImage =
     \<lparr>id' = js ''b.png-2-0.25'',
      file = \<lparr>name = js ''b.png'', type = js ''image/png'', lastModified = 2\<rparr>,
      imageUrl = js ''blob:b'',
      originalExtension = js ''.png'',
      suggestedName = [],
      isLoading = False,
      error = None,
      keywords = []\<rparr>"

definition rateLimitedReply :: ServiceReply where
  "rateLimitedReply =
     \<lparr>apiKeyConfigured = True,
      base64Data = Inr (Some (js ''data:image/jpeg;base64,AAAA'')),
      tryBody = CallRejected (ErrorObject (js ''ApiError'') (js ''got status: 429 Too Many Requests'')),
      dateNow = 1700000000000\<rparr>"

definition undefinedRejection :: ServiceReply where
  "undefinedRejection =
     \<lparr>apiKeyConfigured = True,
      base64Data = Inr (Some (js ''data:image/jpeg;base64,AAAA'')),
      tryBody = CallRejected (NoJsonText (js ''Cannot read properties of undefined (reading 'toLowerCase')'')),
      dateNow = 1700000000000\<rparr>"

definition lateUpload :: Upload where
  "lateUpload =
     \<lparr>uploaded = \<lparr>name = js ''c.png'', type = js ''image/png'', lastModified = 3\<rparr>,
      objectUrl = js ''blob:c'', random = js ''0.75''\<rparr>"

text \<open>
  A consistent comparison function, the order of the code units; it stands for the
  parameter \<open>localeCompare\<close> wherever a concrete export is evaluated.
\<close>

definition codeUnitCompare :: "jsstring \<Rightarrow> jsstring \<Rightarrow> int" where
  "codeUnitCompare a b = (if a < b then - 1 else if a = b then 0 else 1)"

definition failedImage :: ProcessedImage where
  "failedImage =
     \<lparr>id' = js ''d.png-4-0.125'',
      file = \<lparr>name = js ''d.png'', type = js ''image/png'', lastModified = 4\<rparr>,
      imageUrl = js ''blob:d'',
      originalExtension = js ''.png'',
      suggestedName = js ''city-lights'',
      isLoading = True,
      error = Some (js ''Rate limit exceeded. Please wait and retry.''),
      keywords = [js ''night'']\<rparr>"

definition sampleUpload :: Upload where
  "sampleUpload =
     \<lparr>uploaded = \<lparr>name = js ''a.png'', type = js ''image/png'', lastModified = 1\<rparr>,
      objectUrl = js ''blob:a'', random = js ''0.5''\<rparr>"

definition otherUpload :: Upload where
  "otherUpload =
     \<lparr>uploaded = \<lparr>name = js ''a.png'', type = js ''image/png'', lastModified = 1\<rparr>,
      objectUrl = js ''blob:b'', random = js ''0.25''\<rparr>"

section \<open>The clean-up of file names\<close>

lemma set_replaceRuns: "set (replaceRuns C r s) \<subseteq> set s \<union> set r"
proof (induction C r s rule: replaceRuns.induct)
  case (1 C r)
  then show ?case by simp
next
  case (2 C r c s)
  have "set (dropWhile C s) \<subseteq> set s" by (simp add: set_dropWhileD subsetI)
  with 2 show ?case by auto
qed

lemma replaceRuns_id: "\<forall>c\<in>set s. \<not> C c \<Longrightarrow> replaceRuns C r s = s"
  by (induction s) auto

lemma hd_replaceRuns_dropWhile:
  "\<not> prefix [h] (replaceRuns (\<lambda>c. c = h) [h] (dropWhile (\<lambda>c. c = h) s))"
  by (induction s) auto

lemma collapse_no_double:
  "\<not> sublist [h, h] (replaceRuns (\<lambda>c. c = h) [h] s)"
proof (induction "\<lambda>c::nat. c = h" "[h]" s rule: replaceRuns.induct)
  case 1
  then show ?case by simp
next
  case (2 c s)
  show ?case
  proof (cases "c = h")
    case True
    with 2 hd_replaceRuns_dropWhile[of h s] show ?thesis
      by (auto simp: sublist_Cons_right)
  next
    case False
    with 2 show ?thesis by (auto simp: sublist_Cons_right)
  qed
qed

lemma collapse_id:
  "\<not> sublist [h, h] s \<Longrightarrow> replaceRuns (\<lambda>c. c = h) [h] s = s"
proof (induction s)
  case Nil
  then show ?case by simp
next
  case (Cons a s)
  then have IH: "replaceRuns (\<lambda>c. c = h) [h] s = s"
    by (simp add: sublist_Cons_right)
  show ?case
  proof (cases "a = h")
    case True
    with Cons.prems have "s = [] \<or> hd s \<noteq> h"
      by (cases s) (auto simp: sublist_Cons_right)
    then have "dropWhile (\<lambda>c. c = h) s = s" by (cases s) auto
    with True IH show ?thesis by simp
  next
    case False
    with IH show ?thesis by simp
  qed
qed

lemma isNameChar_not_space: "isNameChar c \<Longrightarrow> \<not> isWhiteSpace c"
  by (auto simp: isNameChar_def isWhiteSpace_def hyphen_def)

lemma trim_id: "\<forall>c\<in>set s. \<not> isWhiteSpace c \<Longrightarrow> trim s = s"
proof -
  assume a: "\<forall>c\<in>set s. \<not> isWhiteSpace c"
  then have "dropWhile isWhiteSpace s = s" by (cases s) auto
  moreover from a have "dropWhile isWhiteSpace (rev s) = rev s" by (cases "rev s") auto
  ultimately show ?thesis by (simp add: trim_def)
qed

lemma set_stripEdgeHyphens: "set (stripEdgeHyphens s) \<subseteq> set s"
  by (auto simp: stripEdgeHyphens_def Let_def split: list.splits dest: in_set_butlastD)

lemma sublist_butlast: "sublist xs (butlast ys) \<Longrightarrow> sublist xs ys"
  by (metis append_butlast_last_id butlast.simps(1) sublist_appendI sublist_order.order_trans
      sublist_append_rightI)

lemma stripEdgeHyphens_no_double:
  "\<not> sublist [hyphen, hyphen] s \<Longrightarrow> \<not> sublist [hyphen, hyphen] (stripEdgeHyphens s)"
  by (auto simp: stripEdgeHyphens_def Let_def sublist_Cons_right split: list.splits
      dest: sublist_butlast)

lemma last_butlast_no_double:
  assumes "\<not> sublist [h, h] s" "s \<noteq> []" "last s = h" "butlast s \<noteq> []"
  shows "last (butlast s) \<noteq> h"
proof
  assume "last (butlast s) = h"
  with assms have "s = butlast (butlast s) @ [h, h]"
    by (metis append_butlast_last_id append.assoc append_Cons append_Nil)
  then have "sublist [h, h] s" by (metis sublist_appendI append_Nil2)
  with assms show False by simp
qed

lemma stripEdgeHyphens_edges:
  assumes "\<not> sublist [hyphen, hyphen] s" and "stripEdgeHyphens s \<noteq> []"
  shows "hd (stripEdgeHyphens s) \<noteq> hyphen \<and> last (stripEdgeHyphens s) \<noteq> hyphen"
proof -
  define s1 where "s1 = (case s of [] \<Rightarrow> [] | c # r \<Rightarrow> if c = hyphen then r else s)"
  have res: "stripEdgeHyphens s = (if s1 \<noteq> [] \<and> last s1 = hyphen then butlast s1 else s1)"
    by (simp add: stripEdgeHyphens_def s1_def Let_def)
  have nd1: "\<not> sublist [hyphen, hyphen] s1"
    using assms(1) by (auto simp: s1_def sublist_Cons_right split: list.splits)
  have hd1: "s1 \<noteq> [] \<Longrightarrow> hd s1 \<noteq> hyphen"
  proof (cases s)
    case Nil
    then show "s1 \<noteq> [] \<Longrightarrow> hd s1 \<noteq> hyphen" by (simp add: s1_def)
  next
    case (Cons c r)
    assume "s1 \<noteq> []"
    with Cons assms(1) show "hd s1 \<noteq> hyphen"
      by (cases r) (auto simp: s1_def sublist_Cons_right split: if_splits)
  qed
  show ?thesis
  proof (cases "s1 \<noteq> [] \<and> last s1 = hyphen")
    case True
    with res assms(2) have ne: "butlast s1 \<noteq> []" and r: "stripEdgeHyphens s = butlast s1" by auto
    from ne have "hd (butlast s1) = hd s1" by (cases s1) auto
    with hd1 True have "hd (butlast s1) \<noteq> hyphen" by simp
    moreover from last_butlast_no_double[OF nd1 _ _ ne] True have "last (butlast s1) \<noteq> hyphen" by simp
    ultimately show ?thesis using r by simp
  next
    case False
    with res assms(2) have "stripEdgeHyphens s = s1" "s1 \<noteq> []" "last s1 \<noteq> hyphen" by auto
    with hd1 show ?thesis by simp
  qed
qed

lemma stripEdgeHyphens_id:
  "s = [] \<or> (hd s \<noteq> hyphen \<and> last s \<noteq> hyphen) \<Longrightarrow> stripEdgeHyphens s = s"
  by (cases s) (auto simp: stripEdgeHyphens_def Let_def)

declare digits.simps [simp del]

lemma digits_nonempty: "digits n \<noteq> []"
  by (subst digits.simps) simp

lemma digits_isDigit: "list_all isDigit (digits n)"
proof (induction n rule: digits.induct)
  case (1 n)
  show ?case
  proof (cases "n < 10")
    case True
    then show ?thesis by (subst digits.simps) (simp add: isDigit_def)
  next
    case False
    have "n mod 10 < 10" by simp
    then have "isDigit (48 + n mod 10)" unfolding isDigit_def by linarith
    with False 1 show ?thesis by (subst digits.simps) simp
  qed
qed

lemma cleanedFilename_chars: "list_all isNameChar (cleanedFilename toLowerCase raw)"
proof -
  let ?a = "filter isNameChar (replaceRuns isWhiteSpace [hyphen] (toLowerCase (trim raw)))"
  have "set (replaceRuns (\<lambda>c. c = hyphen) [hyphen] ?a) \<subseteq> set ?a \<union> {hyphen}"
    using set_replaceRuns[of "\<lambda>c. c = hyphen" "[hyphen]" ?a] by simp
  moreover have "isNameChar hyphen" by (simp add: isNameChar_def)
  ultimately have "\<forall>c\<in>set (replaceRuns (\<lambda>c. c = hyphen) [hyphen] ?a). isNameChar c" by auto
  with set_stripEdgeHyphens show ?thesis
    unfolding cleanedFilename_def list_all_iff by blast
qed

lemma cleanedFilename_no_double:
  "\<not> sublist [hyphen, hyphen] (cleanedFilename toLowerCase raw)"
  unfolding cleanedFilename_def by (rule stripEdgeHyphens_no_double) (rule collapse_no_double)

lemma cleanedFilename_edges:
  "cleanedFilename toLowerCase raw \<noteq> [] \<Longrightarrow>
   hd (cleanedFilename toLowerCase raw) \<noteq> hyphen \<and> last (cleanedFilename toLowerCase raw) \<noteq> hyphen"
  unfolding cleanedFilename_def by (rule stripEdgeHyphens_edges) (rule collapse_no_double)

lemma not_startsWith_hyphen: "s \<noteq> [] \<Longrightarrow> hd s \<noteq> hyphen \<Longrightarrow> \<not> startsWith s [hyphen]"
  by (cases s) (auto simp: startsWith_def)

lemma not_endsWith_hyphen: "s \<noteq> [] \<Longrightarrow> last s \<noteq> hyphen \<Longrightarrow> \<not> endsWith s [hyphen]"
  by (auto simp: endsWith_def suffix_def)

lemma asciiToLowerCase_fixes: "list_all isNameChar t \<Longrightarrow> asciiToLowerCase t = t"
  by (induction t) (auto simp: asciiToLowerCase_def isNameChar_def hyphen_def)

text \<open>
  Claim C3. Whenever the service gets as far as a parsed response, it returns details whose
  file name is the cleaned-up title when that is not empty, and then consists of characters
  of \<^verbatim>\<open>[a-z0-9-]\<close> only, neither starts nor ends with a hyphen and contains no two
  hyphens in a row; when the cleaned-up title is empty, the file name is \<^verbatim>\<open>image-\<close>
  followed by the decimal digits of the current time (a time not before the epoch).
\<close>

theorem generated_filename_shape:
  assumes "apiKeyConfigured reply"
    and "base64Data reply = Inr (Some dataUrl)"
    and "splitComma1 dataUrl = Some payload" and "payload \<noteq> []"
    and "tryBody reply = Parsed jsonFilename jsonKeywords"
    and "0 \<le> dateNow reply"
  shows "\<exists>details. generateImageDetails toLowerCase reply = Inr details \<and>
           (let cleaned = cleanedFilename toLowerCase (case jsonFilename of None \<Rightarrow> [] | Some f \<Rightarrow> f)
            in if cleaned \<noteq> []
               then filename details = cleaned \<and>
                    list_all isNameChar (filename details) \<and>
                    \<not> startsWith (filename details) (js ''-'') \<and>
                    \<not> endsWith (filename details) (js ''-'') \<and>
                    \<not> includes_str (filename details) (js ''--'')
               else filename details = js ''image-'' @ digits (nat (dateNow reply)) \<and>
                    digits (nat (dateNow reply)) \<noteq> [] \<and>
                    list_all isDigit (digits (nat (dateNow reply))))"
proof -
  define cleaned where
    "cleaned = cleanedFilename toLowerCase (case jsonFilename of None \<Rightarrow> [] | Some f \<Rightarrow> f)"
  define kws where "kws = (case jsonKeywords of None \<Rightarrow> [] | Some k \<Rightarrow> k)"
  define details where
    "details = (if cleaned = []
                then \<lparr>filename = js ''image-'' @ numberToString (dateNow reply), keywords' = kws\<rparr>
                else \<lparr>filename = cleaned, keywords' = kws\<rparr>)"
  have run: "generateImageDetails toLowerCase reply = Inr details"
    using assms(1-5) by (simp add: generateImageDetails_def details_def cleaned_def kws_def Let_def)
  have h: "js ''-'' = [hyphen]" "js ''--'' = [hyphen, hyphen]"
    by (simp_all add: js_def hyphen_def)
  show ?thesis
  proof (cases "cleaned = []")
    case True
    then have "filename details = js ''image-'' @ digits (nat (dateNow reply))"
      using assms(6) by (simp add: details_def numberToString_def)
    with True run digits_nonempty digits_isDigit show ?thesis
      unfolding cleaned_def[symmetric] Let_def by auto
  next
    case False
    then have f: "filename details = cleaned" by (simp add: details_def)
    from False cleanedFilename_edges[of toLowerCase] have
      "hd cleaned \<noteq> hyphen" "last cleaned \<noteq> hyphen" by (auto simp: cleaned_def)
    with False have "\<not> startsWith cleaned [hyphen]" "\<not> endsWith cleaned [hyphen]"
      using not_startsWith_hyphen[of cleaned] not_endsWith_hyphen[of cleaned] by blast+
    moreover have "list_all isNameChar cleaned" "\<not> includes_str cleaned [hyphen, hyphen]"
      by (simp_all add: cleaned_def cleanedFilename_chars cleanedFilename_no_double includes_str_def)
    ultimately show ?thesis using False f run h
      unfolding cleaned_def[symmetric] Let_def by auto
  qed
qed

lemma cleanedFilename_sample:
  "cleanedFilename asciiToLowerCase (js ''  My  Photo!! -'') = js ''my-photo''"
  by (simp add: cleanedFilename_def js_def trim_def isWhiteSpace_def asciiToLowerCase_def
      isNameChar_def hyphen_def stripEdgeHyphens_def)

lemma splitComma1_sample: "splitComma1 (js ''data:image/jpeg;base64,AAAA'') = Some (js ''AAAA'')"
  by (simp add: splitComma1_def js_def)

lemma cleanedFilename_unusable: "cleanedFilename asciiToLowerCase (js '' ?!? '') = []"
  by (simp add: cleanedFilename_def js_def trim_def isWhiteSpace_def asciiToLowerCase_def
      isNameChar_def hyphen_def stripEdgeHyphens_def)

lemma digits_sample: "digits 1700000000000 = js ''1700000000000''"
  by (simp add: digits.simps js_def)

theorem generated_filename_shape_witness:
  "(\<exists>details. generateImageDetails asciiToLowerCase sampleReply = Inr details \<and>
     filename details = js ''my-photo'' \<and>
     list_all isNameChar (filename details) \<and>
     \<not> startsWith (filename details) (js ''-'') \<and>
     \<not> endsWith (filename details) (js ''-'') \<and>
     \<not> includes_str (filename details) (js ''--'')) \<and>
   (\<exists>details. generateImageDetails asciiToLowerCase unusableReply = Inr details \<and>
     filename details = js ''image-1700000000000'')"
proof
  have "apiKeyConfigured sampleReply"
    and "base64Data sampleReply = Inr (Some (js ''data:image/jpeg;base64,AAAA''))"
    and "js ''AAAA'' \<noteq> []"
    and "tryBody sampleReply = Parsed (Some (js ''  My  Photo!! -'')) (Some [js ''sea'', js ''beach'', js ''sea''])"
    and "0 \<le> dateNow sampleReply"
    by (simp_all add: sampleReply_def js_def)
  from generated_filename_shape[OF this(1,2) splitComma1_sample this(3,4,5), of asciiToLowerCase]
  show "\<exists>details. generateImageDetails asciiToLowerCase sampleReply = Inr details \<and>
     filename details = js ''my-photo'' \<and>
     list_all isNameChar (filename details) \<and>
     \<not> startsWith (filename details) (js ''-'') \<and>
     \<not> endsWith (filename details) (js ''-'') \<and>
     \<not> includes_str (filename details) (js ''--'')"
    by (simp add: cleanedFilename_sample Let_def) (simp add: js_def)
next
  have "apiKeyConfigured unusableReply"
    and "base64Data unusableReply = Inr (Some (js ''data:image/jpeg;base64,AAAA''))"
    and "js ''AAAA'' \<noteq> []"
    and "tryBody unusableReply = Parsed (Some (js '' ?!? '')) None"
    and "0 \<le> dateNow unusableReply"
    by (simp_all add: unusableReply_def js_def)
  from generated_filename_shape[OF this(1,2) splitComma1_sample this(3,4,5), of asciiToLowerCase]
  have "\<exists>details. generateImageDetails asciiToLowerCase unusableReply = Inr details \<and>
     filename details = js ''image-'' @ digits (nat (dateNow unusableReply))"
    by (simp add: cleanedFilename_unusable Let_def) blast
  moreover have "js ''image-'' @ digits (nat (dateNow unusableReply)) = js ''image-1700000000000''"
    by (simp add: unusableReply_def digits_sample) (simp add: js_def)
  ultimately show "\<exists>details. generateImageDetails asciiToLowerCase unusableReply = Inr details \<and>
     filename details = js ''image-1700000000000''" by simp
qed

text \<open>
  Claim C4. The clean-up of the file name is idempotent: applied to its own result it
  returns that result. Of the case conversion of the platform only this is used: text made
  of characters of \<^verbatim>\<open>[a-z0-9-]\<close> is already in lower case.
\<close>

theorem cleanedFilename_idempotent:
  assumes "\<forall>t. list_all isNameChar t \<longrightarrow> toLowerCase t = t"
  shows "cleanedFilename toLowerCase (cleanedFilename toLowerCase raw) =
         cleanedFilename toLowerCase raw"
proof -
  define t where "t = cleanedFilename toLowerCase raw"
  have chars: "list_all isNameChar t" by (simp add: t_def cleanedFilename_chars)
  then have nospace: "\<forall>c\<in>set t. \<not> isWhiteSpace c"
    by (auto simp: list_all_iff dest: isNameChar_not_space)
  have 1: "trim t = t" using nospace by (rule trim_id)
  have 2: "toLowerCase t = t" using assms chars by simp
  have 3: "replaceRuns isWhiteSpace [hyphen] t = t" using nospace by (rule replaceRuns_id)
  have 4: "filter isNameChar t = t" using chars by (simp add: list_all_iff)
  have 5: "replaceRuns (\<lambda>c. c = hyphen) [hyphen] t = t"
    by (rule collapse_id) (simp add: t_def cleanedFilename_no_double)
  have 6: "stripEdgeHyphens t = t"
    using cleanedFilename_edges[of toLowerCase raw] by (intro stripEdgeHyphens_id) (auto simp: t_def)
  have "cleanedFilename toLowerCase t = t"
    by (simp add: cleanedFilename_def[of toLowerCase t] 1 2 3 4 5 6)
  then show ?thesis by (simp add: t_def)
qed

theorem cleanedFilename_idempotent_witness:
  "cleanedFilename asciiToLowerCase (cleanedFilename asciiToLowerCase (js ''  My  Photo!! -'')) =
   cleanedFilename asciiToLowerCase (js ''  My  Photo!! -'') \<and>
   cleanedFilename asciiToLowerCase (js ''  My  Photo!! -'') = js ''my-photo''"
  using cleanedFilename_idempotent[of asciiToLowerCase "js ''  My  Photo!! -''"]
    asciiToLowerCase_fixes cleanedFilename_sample by blast

section \<open>The original extension\<close>

lemma lastIndexOf_absent: "c \<notin> set s \<Longrightarrow> lastIndexOf s c = - 1"
  by (induction s) (auto simp: Let_def)

lemma lastIndexOf_present:
  "c \<in> set s \<Longrightarrow> \<exists>stem rest. s = stem @ c # rest \<and> c \<notin> set rest \<and> lastIndexOf s c = int (length stem)"
proof (induction s)
  case Nil
  then show ?case by simp
next
  case (Cons x s)
  show ?case
  proof (cases "c \<in> set s")
    case True
    with Cons.IH obtain stem rest where
      "s = stem @ c # rest" "c \<notin> set rest" "lastIndexOf s c = int (length stem)" by blast
    then have "x # s = (x # stem) @ c # rest \<and> c \<notin> set rest \<and>
               lastIndexOf (x # s) c = int (length (x # stem))"
      by (simp add: Let_def)
    then show ?thesis by blast
  next
    case False
    with Cons.prems have "x = c" by simp
    with False have "x # s = [] @ c # s \<and> c \<notin> set s \<and> lastIndexOf (x # s) c = int (length ([]::nat list))"
      by (simp add: Let_def lastIndexOf_absent)
    then show ?thesis by blast
  qed
qed

lemma slice_last: "s \<noteq> [] \<Longrightarrow> slice s (- 1) = [last s]"
proof -
  assume "s \<noteq> []"
  then have "drop (length s - 1) s = [last s]"
    by (metis append_butlast_last_id append_eq_conv_conj length_butlast)
  moreover from \<open>s \<noteq> []\<close> have "nat (max (int (length s) + - 1) 0) = length s - 1"
    by (cases s) auto
  ultimately show ?thesis by (simp add: slice_def Let_def)
qed

lemma fileExt_dot:
  "46 \<in> set fileName \<Longrightarrow>
   \<exists>stem rest. fileName = stem @ 46 # rest \<and> 46 \<notin> set rest \<and> fileExt fileName = 46 # rest"
proof -
  assume "46 \<in> set fileName"
  from lastIndexOf_present[OF this] obtain stem rest where
    *: "fileName = stem @ 46 # rest" "46 \<notin> set rest" "lastIndexOf fileName 46 = int (length stem)"
    by blast
  then have "fileExt fileName = 46 # rest"
    by (simp add: fileExt_def slice_def Let_def)
  with * show ?thesis by blast
qed

lemma fileExt_no_dot: "46 \<notin> set fileName \<Longrightarrow> fileName \<noteq> [] \<Longrightarrow> fileExt fileName = [last fileName]"
  by (simp add: fileExt_def lastIndexOf_absent slice_last)

text \<open>
  Claim C9. The extension stored for an uploaded file: when the name contains a dot, the
  part of the name from its last dot on; when the name is not empty and contains no dot,
  its last character, which the export then appends to the new name. The stored extension
  of a file with a non-empty name is never empty. Every file whose type starts with
  \<^verbatim>\<open>image/\<close> gets its item in the collection.
\<close>

theorem stored_extension:
  fixes u :: Upload
  defines "fileName \<equiv> name (uploaded u)"
  shows "(46 \<in> set fileName \<longrightarrow>
            (\<exists>stem rest. fileName = stem @ 46 # rest \<and> 46 \<notin> set rest \<and>
                          originalExtension (newImage u) = 46 # rest)) \<and>
         (46 \<notin> set fileName \<and> fileName \<noteq> [] \<longrightarrow>
            originalExtension (newImage u) = [last fileName] \<and>
            newFilename ((newImage u)\<lparr>suggestedName := newName\<rparr>) = newName @ [last fileName]) \<and>
         (fileName \<noteq> [] \<longrightarrow> originalExtension (newImage u) \<noteq> []) \<and>
         (u \<in> set files \<and> startsWith (type (uploaded u)) (js ''image/'') \<longrightarrow>
            newImage u \<in> set (handleImageUpload files prev))"
proof -
  have ext: "originalExtension (newImage u) = fileExt fileName"
    by (simp add: newImage_def fileName_def)
  have 1: "46 \<in> set fileName \<longrightarrow>
            (\<exists>stem rest. fileName = stem @ 46 # rest \<and> 46 \<notin> set rest \<and>
                          originalExtension (newImage u) = 46 # rest)"
    using fileExt_dot[of fileName] ext by simp
  have 2: "46 \<notin> set fileName \<and> fileName \<noteq> [] \<longrightarrow>
            originalExtension (newImage u) = [last fileName] \<and>
            newFilename ((newImage u)\<lparr>suggestedName := newName\<rparr>) = newName @ [last fileName]"
    using fileExt_no_dot[of fileName] ext by (simp add: newFilename_def)
  have 3: "fileName \<noteq> [] \<longrightarrow> originalExtension (newImage u) \<noteq> []"
    using 1 2 by (cases "46 \<in> set fileName") auto
  have 4: "u \<in> set files \<and> startsWith (type (uploaded u)) (js ''image/'') \<longrightarrow>
            newImage u \<in> set (handleImageUpload files prev)"
  proof
    assume a: "u \<in> set files \<and> startsWith (type (uploaded u)) (js ''image/'')"
    then have "u \<in> set (accepted files)" by (simp add: accepted_def)
    then have "accepted files \<noteq> []" "newImage u \<in> set (map newImage (accepted files))" by auto
    then show "newImage u \<in> set (handleImageUpload files prev)"
      by (simp add: handleImageUpload_def Let_def)
  qed
  from 1 2 3 4 show ?thesis by blast
qed

theorem stored_extension_witness:
  "originalExtension (newImage \<lparr>uploaded = \<lparr>name = js ''README'', type = js ''image/png'', lastModified = 0\<rparr>,
       objectUrl = js ''blob:1'', random = js ''0.5''\<rparr>) = js ''E'' \<and>
   newFilename ((newImage \<lparr>uploaded = \<lparr>name = js ''README'', type = js ''image/png'', lastModified = 0\<rparr>,
       objectUrl = js ''blob:1'', random = js ''0.5''\<rparr>)\<lparr>suggestedName := js ''quiet-harbour''\<rparr>) = js ''quiet-harbourE''"
  using stored_extension[of "\<lparr>uploaded = \<lparr>name = js ''README'', type = js ''image/png'', lastModified = 0\<rparr>,
       objectUrl = js ''blob:1'', random = js ''0.5''\<rparr>" "js ''quiet-harbour''"]
  by (simp add: js_def)

section \<open>One generation request\<close>

lemma applyDetails_absent: "ident \<notin> set (map id' prev) \<Longrightarrow> applyDetails ident details prev = prev"
  by (induction prev) (auto simp: applyDetails_def)

lemma applyError_absent: "ident \<notin> set (map id' prev) \<Longrightarrow> applyError ident msg prev = prev"
  by (induction prev) (auto simp: applyError_def)

lemma removed_absent: "ident \<notin> set (map id' (handleRemoveImage ident prev))"
  by (auto simp: handleRemoveImage_def)

lemma remove_markLoading:
  "handleRemoveImage ident (markLoading ident prev) = handleRemoveImage ident prev"
  by (induction prev) (auto simp: handleRemoveImage_def markLoading_def)

lemma applyDetails_others:
  "length (applyDetails ident details prev) = length prev \<and>
   (\<forall>k<length prev. id' (prev ! k) \<noteq> ident \<longrightarrow> applyDetails ident details prev ! k = prev ! k)"
  by (simp add: applyDetails_def)

lemma applyError_others:
  "length (applyError ident msg prev) = length prev \<and>
   (\<forall>k<length prev. id' (prev ! k) \<noteq> ident \<longrightarrow> applyError ident msg prev ! k = prev ! k)"
  by (simp add: applyError_def)

lemma handler_found:
  "find (\<lambda>img. id' img = ident) processedImages = Some imageToProcess \<Longrightarrow>
   handleGenerateNameForImage toLowerCase processedImages reply meanwhile ident r =
     \<lparr>live = (case generateImageDetails toLowerCase reply of
                Inr details \<Rightarrow> applyDetails ident details (meanwhile (markLoading ident (live r)))
              | Inl err \<Rightarrow> applyError ident (errorMessageOf err) (meanwhile (markLoading ident (live r)))),
      events = events r @ [GenerateCall ident, GenerateSettled ident]\<rparr>"
  by (simp add: handleGenerateNameForImage_def Let_def)

text \<open>
  Claim C5. A result, success or failure, that arrives for an identity that is not in the
  collection leaves the collection as it is; in particular after the item was removed while
  its request was in flight, where the whole handler ends with the collection without the
  item. Applying a result never changes the length of the collection, and every item with
  another identity stays in its place with all its fields.
\<close>

theorem result_for_removed_item:
  "(ident \<notin> set (map id' prev) \<longrightarrow>
      applyDetails ident details prev = prev \<and> applyError ident msg prev = prev) \<and>
   applyDetails ident details (handleRemoveImage ident prev) = handleRemoveImage ident prev \<and>
   applyError ident msg (handleRemoveImage ident prev) = handleRemoveImage ident prev \<and>
   (find (\<lambda>img. id' img = ident) processedImages \<noteq> None \<longrightarrow>
      live (handleGenerateNameForImage toLowerCase processedImages reply (handleRemoveImage ident) ident r)
        = handleRemoveImage ident (live r)) \<and>
   length (applyDetails ident details prev) = length prev \<and>
   length (applyError ident msg prev) = length prev \<and>
   (\<forall>k<length prev. id' (prev ! k) \<noteq> ident \<longrightarrow>
      applyDetails ident details prev ! k = prev ! k \<and> applyError ident msg prev ! k = prev ! k)"
proof -
  have a: "applyDetails ident details (handleRemoveImage ident prev) = handleRemoveImage ident prev"
    by (rule applyDetails_absent) (rule removed_absent)
  have b: "applyError ident msg (handleRemoveImage ident prev) = handleRemoveImage ident prev"
    by (rule applyError_absent) (rule removed_absent)
  have c: "find (\<lambda>img. id' img = ident) processedImages \<noteq> None \<longrightarrow>
      live (handleGenerateNameForImage toLowerCase processedImages reply (handleRemoveImage ident) ident r)
        = handleRemoveImage ident (live r)"
  proof
    assume "find (\<lambda>img. id' img = ident) processedImages \<noteq> None"
    then obtain imageToProcess where
      "find (\<lambda>img. id' img = ident) processedImages = Some imageToProcess" by blast
    from handler_found[OF this] show
      "live (handleGenerateNameForImage toLowerCase processedImages reply (handleRemoveImage ident) ident r)
        = handleRemoveImage ident (live r)"
      by (cases "generateImageDetails toLowerCase reply")
        (simp_all add: remove_markLoading applyDetails_absent applyError_absent removed_absent
          del: set_map)
  qed
  from a b c applyDetails_absent[of ident prev details] applyError_absent[of ident prev msg]
    applyDetails_others[of ident details prev] applyError_others[of ident msg prev]
  show ?thesis by blast
qed

lemma markLoading_applyError:
  "applyError ident msg (markLoading ident prev) =
   map (\<lambda>img. if id' img = ident then img\<lparr>isLoading := False, error := Some msg\<rparr> else img) prev"
  by (induction prev) (auto simp: applyError_def markLoading_def)

lemma flags_keep_fields:
  "map suggestedName (map (\<lambda>img. if id' img = ident then img\<lparr>isLoading := l, error := e\<rparr> else img) prev)
     = map suggestedName prev"
  "map keywords (map (\<lambda>img. if id' img = ident then img\<lparr>isLoading := l, error := e\<rparr> else img) prev)
     = map keywords prev"
  "map newFilename (successfulImages
      (map (\<lambda>img. if id' img = ident then img\<lparr>isLoading := l, error := e\<rparr> else img) prev))
     = map newFilename (successfulImages prev)"
  by (induction prev) (auto simp: successfulImages_def newFilename_def)

text \<open>
  Claim C10. When the service fails for an item of the collection (and nothing else touches
  the collection meanwhile), the item ends with \<open>isLoading\<close> false and \<open>error\<close> set to the
  message, and nothing else changes: suggested names and keywords of all items are as
  before, and so are the items that count as successful and the names they are exported
  under.
\<close>

theorem failure_keeps_name_and_keywords:
  assumes "generateImageDetails toLowerCase reply = Inl err"
    and "find (\<lambda>img. id' img = ident) processedImages = Some imageToProcess"
  shows "\<exists>after.
           live (handleGenerateNameForImage toLowerCase processedImages reply (\<lambda>l. l) ident r) = after \<and>
           after = map (\<lambda>img. if id' img = ident
                              then img\<lparr>isLoading := False, error := Some (errorMessageOf err)\<rparr>
                              else img) (live r) \<and>
           map suggestedName after = map suggestedName (live r) \<and>
           map keywords after = map keywords (live r) \<and>
           map newFilename (successfulImages after) = map newFilename (successfulImages (live r))"
  using handler_found[OF assms(2), of toLowerCase reply "\<lambda>l. l" r] assms(1)
  by (simp add: markLoading_applyError flags_keep_fields)

lemma messages_differ: "rateLimitMessage \<noteq> genericFailureMessage"
  by (simp add: rateLimitMessage_def genericFailureMessage_def js_def)

lemma applyError_target_all:
  "list_all (\<lambda>img. id' img = ident \<longrightarrow> error img = Some msg \<and> \<not> isLoading img)
     (applyError ident msg prev)"
  by (induction prev) (simp_all add: applyError_def)

lemma applyError_target:
  "\<forall>img\<in>set (applyError ident msg prev). id' img = ident \<longrightarrow> error img = Some msg \<and> \<not> isLoading img"
  using applyError_target_all[of ident msg prev] unfolding list_all_iff .

lemma markers_text:
  "hasRateLimitMarker errorText \<longleftrightarrow>
     includes_str errorText (js ''429'') \<or> includes_str errorText (js ''resource_exhausted'') \<or>
     includes_str errorText (js ''rate limit'')"
  by (simp add: hasRateLimitMarker_def)

lemma catchBlock_with_text:
  assumes "err = ErrorObject n m \<and> text = (if n = [] then m else if m = [] then n else n @ js '': '' @ m)
           \<or> err = NonError text"
  shows "catchBlock toLowerCase err =
           ErrorObject (js ''Error'')
             (if includes_str (toLowerCase text) (js ''429'') \<or>
                 includes_str (toLowerCase text) (js ''resource_exhausted'') \<or>
                 includes_str (toLowerCase text) (js ''rate limit'')
              then js ''Rate limit exceeded. Please wait and retry.''
              else js ''Failed to generate details from AI service.'')"
proof -
  from assms have "thrownText err = Inr text" by auto
  then show ?thesis
    by (simp add: catchBlock_def Let_def markers_text newError_def rateLimitMessage_def
        genericFailureMessage_def)
qed

lemma catchBlock_without_text:
  "catchBlock toLowerCase (NoJsonText typeErrorMessage) = ErrorObject (js ''TypeError'') typeErrorMessage"
  by (simp add: catchBlock_def)

lemma generateImageDetails_caught:
  assumes "apiKeyConfigured reply"
    and "base64Data reply = Inr (Some dataUrl)"
    and "splitComma1 dataUrl = Some payload" and "payload \<noteq> []"
    and "tryBody reply = CallRejected err \<or> tryBody reply = MalformedResponse err"
  shows "generateImageDetails toLowerCase reply = Inl (catchBlock toLowerCase err)"
  using assms(5)
proof
  assume "tryBody reply = CallRejected err"
  with assms(1-4) show ?thesis by (simp add: generateImageDetails_def)
next
  assume "tryBody reply = MalformedResponse err"
  with assms(1-4) show ?thesis by (simp add: generateImageDetails_def)
qed

text \<open>
  What the handler makes of a failure inside the \<^verbatim>\<open>try\<close> block of the service. When
  the call rejects, or its response cannot be read, with an \<^verbatim>\<open>Error\<close> or with a value
  that has a JSON text, the service throws \<^verbatim>\<open>Rate limit exceeded. Please wait and retry.\<close>
  if the lower-cased text contains \<^verbatim>\<open>429\<close>, \<^verbatim>\<open>resource_exhausted\<close> or
  \<^verbatim>\<open>rate limit\<close>, and \<^verbatim>\<open>Failed to generate details from AI service.\<close> otherwise. The
  handler catches it and returns: every item with the identity ends with \<open>isLoading\<close> false
  and that message as its \<open>error\<close>, and the items with another identity are left as they
  were.
\<close>

lemma external_failure_with_text:
  assumes "apiKeyConfigured reply"
    and "base64Data reply = Inr (Some dataUrl)"
    and "splitComma1 dataUrl = Some payload" and "payload \<noteq> []"
    and "tryBody reply = CallRejected err \<or> tryBody reply = MalformedResponse err"
    and "err = ErrorObject n m \<and> text = (if n = [] then m else if m = [] then n else n @ js '': '' @ m)
         \<or> err = NonError text"
    and "find (\<lambda>img. id' img = ident) processedImages = Some imageToProcess"
  shows "\<exists>msg before after.
           msg = (if includes_str (toLowerCase text) (js ''429'') \<or>
                     includes_str (toLowerCase text) (js ''resource_exhausted'') \<or>
                     includes_str (toLowerCase text) (js ''rate limit'')
                  then js ''Rate limit exceeded. Please wait and retry.''
                  else js ''Failed to generate details from AI service.'') \<and>
           generateImageDetails toLowerCase reply = Inl (ErrorObject (js ''Error'') msg) \<and>
           before = meanwhile (markLoading ident (live r)) \<and>
           handleGenerateNameForImage toLowerCase processedImages reply meanwhile ident r =
             \<lparr>live = after, events = events r @ [GenerateCall ident, GenerateSettled ident]\<rparr> \<and>
           (\<forall>img\<in>set after. id' img = ident \<longrightarrow> \<not> isLoading img \<and> error img = Some msg) \<and>
           length after = length before \<and>
           (\<forall>k<length after. id' (before ! k) \<noteq> ident \<longrightarrow> after ! k = before ! k)"
proof -
  define msg where
    "msg = (if includes_str (toLowerCase text) (js ''429'') \<or>
               includes_str (toLowerCase text) (js ''resource_exhausted'') \<or>
               includes_str (toLowerCase text) (js ''rate limit'')
            then js ''Rate limit exceeded. Please wait and retry.''
            else js ''Failed to generate details from AI service.'')"
  define before where "before = meanwhile (markLoading ident (live r))"
  define after where "after = applyError ident msg before"
  have gen: "generateImageDetails toLowerCase reply = Inl (ErrorObject (js ''Error'') msg)"
    using generateImageDetails_caught[OF assms(1-5), of toLowerCase]
      catchBlock_with_text[OF assms(6), of toLowerCase]
    by (simp add: msg_def)
  have run: "handleGenerateNameForImage toLowerCase processedImages reply meanwhile ident r =
             \<lparr>live = after, events = events r @ [GenerateCall ident, GenerateSettled ident]\<rparr>"
    using handler_found[OF assms(7), of toLowerCase reply meanwhile r] gen
    by (simp add: after_def before_def)
  have tgt: "\<forall>img\<in>set after. id' img = ident \<longrightarrow> \<not> isLoading img \<and> error img = Some msg"
    using applyError_target[of ident msg before] by (simp add: after_def)
  have len: "length after = length before"
    and oth: "\<forall>k<length after. id' (before ! k) \<noteq> ident \<longrightarrow> after ! k = before ! k"
    using applyError_others[of ident msg before] by (simp_all add: after_def)
  have m: "msg = (if includes_str (toLowerCase text) (js ''429'') \<or>
                     includes_str (toLowerCase text) (js ''resource_exhausted'') \<or>
                     includes_str (toLowerCase text) (js ''rate limit'')
                  then js ''Rate limit exceeded. Please wait and retry.''
                  else js ''Failed to generate details from AI service.'')"
    by (simp add: msg_def)
  have b: "before = meanwhile (markLoading ident (live r))" by (simp add: before_def)
  show ?thesis
    apply (rule exI[of _ msg])
    apply (rule exI[of _ before])
    apply (rule exI[of _ after])
    using m gen b run tgt len oth apply (intro conjI)
          apply assumption+
    done
qed

text \<open>
  When the value that is caught has no JSON text, the \<^verbatim>\<open>catch\<close> block of the service
  does not get as far as the markers: the \<^verbatim>\<open>TypeError\<close> leaves it, and its message is what
  the handler stores.
\<close>

lemma external_failure_without_text:
  assumes "apiKeyConfigured reply"
    and "base64Data reply = Inr (Some dataUrl)"
    and "splitComma1 dataUrl = Some payload" and "payload \<noteq> []"
    and "tryBody reply = CallRejected (NoJsonText typeErrorMessage) \<or>
         tryBody reply = MalformedResponse (NoJsonText typeErrorMessage)"
    and "find (\<lambda>img. id' img = ident) processedImages = Some imageToProcess"
  shows "generateImageDetails toLowerCase reply = Inl (ErrorObject (js ''TypeError'') typeErrorMessage) \<and>
         handleGenerateNameForImage toLowerCase processedImages reply meanwhile ident r =
           \<lparr>live = applyError ident typeErrorMessage (meanwhile (markLoading ident (live r))),
            events = events r @ [GenerateCall ident, GenerateSettled ident]\<rparr>"
proof -
  have gen: "generateImageDetails toLowerCase reply = Inl (ErrorObject (js ''TypeError'') typeErrorMessage)"
    using generateImageDetails_caught[OF assms(1-5), of toLowerCase]
    by (simp add: catchBlock_without_text)
  with handler_found[OF assms(6), of toLowerCase reply meanwhile r] show ?thesis by simp
qed

text \<open>The three markers and the generic case, on concrete values.\<close>

lemma rateLimited_marker:
  "catchBlock asciiToLowerCase (ErrorObject (js ''ApiError'') (js ''got status: 429 Too Many Requests''))
     = newError rateLimitMessage"
  by (simp add: catchBlock_def hasRateLimitMarker_def includes_str_def asciiToLowerCase_def js_def
      sublist_Cons_right)

lemma resourceExhausted_marker:
  "catchBlock asciiToLowerCase (NonError ([34] @ js ''RESOURCE_EXHAUSTED'' @ [34]))
     = newError rateLimitMessage"
  by (simp add: catchBlock_def hasRateLimitMarker_def includes_str_def asciiToLowerCase_def js_def
      sublist_Cons_right)

lemma rateLimitWords_marker:
  "catchBlock asciiToLowerCase (ErrorObject (js ''Error'') (js ''Rate limit reached''))
     = newError rateLimitMessage"
  by (simp add: catchBlock_def hasRateLimitMarker_def includes_str_def asciiToLowerCase_def js_def
      sublist_Cons_right)

lemma no_marker:
  "catchBlock asciiToLowerCase (ErrorObject (js ''SyntaxError'') (js ''Unexpected end of JSON input''))
     = newError genericFailureMessage"
  by (simp add: catchBlock_def hasRateLimitMarker_def includes_str_def asciiToLowerCase_def js_def
      sublist_Cons_right)

lemma find_renamed:
  "find (\<lambda>img. id' img = id' renamedImage) [renamedImage, pendingImage] = Some renamedImage"
  by simp

text \<open>
  Claim C6, where the program departs from it. The call of the service rejects with
  \<^verbatim>\<open>undefined\<close>, a value that is no \<^verbatim>\<open>Error\<close> and has no JSON text. The failure is
  caught by the handler of the item and ends as the error of that item alone, but the
  message that is stored is the one of the \<^verbatim>\<open>TypeError\<close> raised inside the \<^verbatim>\<open>catch\<close>
  block of the service: neither the rate-limit text nor the generic text.
\<close>

theorem rejection_without_text:
  "handleGenerateNameForImage asciiToLowerCase [renamedImage, pendingImage] undefinedRejection (\<lambda>l. l)
     (id' renamedImage) \<lparr>live = [renamedImage, pendingImage], events = []\<rparr> =
   \<lparr>live = [renamedImage\<lparr>isLoading := False,
                 error := Some (js ''Cannot read properties of undefined (reading 'toLowerCase')'')\<rparr>,
            pendingImage],
    events = [GenerateCall (id' renamedImage), GenerateSettled (id' renamedImage)]\<rparr> \<and>
   js ''Cannot read properties of undefined (reading 'toLowerCase')'' \<noteq>
     js ''Rate limit exceeded. Please wait and retry.'' \<and>
   js ''Cannot read properties of undefined (reading 'toLowerCase')'' \<noteq>
     js ''Failed to generate details from AI service.''"
proof -
  have "apiKeyConfigured undefinedRejection"
    and "base64Data undefinedRejection = Inr (Some (js ''data:image/jpeg;base64,AAAA''))"
    and "js ''AAAA'' \<noteq> []"
    and "tryBody undefinedRejection =
           CallRejected (NoJsonText (js ''Cannot read properties of undefined (reading 'toLowerCase')'')) \<or>
         tryBody undefinedRejection =
           MalformedResponse (NoJsonText (js ''Cannot read properties of undefined (reading 'toLowerCase')''))"
    by (simp_all add: undefinedRejection_def js_def)
  from external_failure_without_text[OF this(1,2) splitComma1_sample this(3,4) find_renamed,
      of asciiToLowerCase "\<lambda>l. l" "\<lparr>live = [renamedImage, pendingImage], events = []\<rparr>"]
  have run: "handleGenerateNameForImage asciiToLowerCase [renamedImage, pendingImage] undefinedRejection
       (\<lambda>l. l) (id' renamedImage) \<lparr>live = [renamedImage, pendingImage], events = []\<rparr> =
     \<lparr>live = applyError (id' renamedImage)
               (js ''Cannot read properties of undefined (reading 'toLowerCase')'')
               (markLoading (id' renamedImage) [renamedImage, pendingImage]),
      events = [GenerateCall (id' renamedImage), GenerateSettled (id' renamedImage)]\<rparr>"
    by simp
  have ne: "id' pendingImage \<noteq> id' renamedImage"
    by (simp add: pendingImage_def renamedImage_def js_def)
  have "applyError (id' renamedImage)
               (js ''Cannot read properties of undefined (reading 'toLowerCase')'')
               (markLoading (id' renamedImage) [renamedImage, pendingImage]) =
        [renamedImage\<lparr>isLoading := False,
                 error := Some (js ''Cannot read properties of undefined (reading 'toLowerCase')'')\<rparr>,
            pendingImage]"
    using ne by (simp add: applyError_def markLoading_def)
  with run have 1: "handleGenerateNameForImage asciiToLowerCase [renamedImage, pendingImage] undefinedRejection (\<lambda>l. l)
     (id' renamedImage) \<lparr>live = [renamedImage, pendingImage], events = []\<rparr> =
   \<lparr>live = [renamedImage\<lparr>isLoading := False,
                 error := Some (js ''Cannot read properties of undefined (reading 'toLowerCase')'')\<rparr>,
            pendingImage],
    events = [GenerateCall (id' renamedImage), GenerateSettled (id' renamedImage)]\<rparr>"
    by simp
  have 2: "js ''Cannot read properties of undefined (reading 'toLowerCase')'' \<noteq>
     js ''Rate limit exceeded. Please wait and retry.''"
    and 3: "js ''Cannot read properties of undefined (reading 'toLowerCase')'' \<noteq>
     js ''Failed to generate details from AI service.''"
    by (simp_all add: js_def)
  from 1 2 3 show ?thesis by (intro conjI)
qed

theorem failure_keeps_name_and_keywords_witness:
  "live (handleGenerateNameForImage asciiToLowerCase [renamedImage, pendingImage] rateLimitedReply (\<lambda>l. l)
     (id' renamedImage) \<lparr>live = [renamedImage, pendingImage], events = []\<rparr>) =
     [renamedImage\<lparr>isLoading := False, error := Some rateLimitMessage\<rparr>, pendingImage] \<and>
   map suggestedName (live (handleGenerateNameForImage asciiToLowerCase [renamedImage, pendingImage]
     rateLimitedReply (\<lambda>l. l) (id' renamedImage) \<lparr>live = [renamedImage, pendingImage], events = []\<rparr>)) =
     [js ''sunset-walk'', []] \<and>
   map keywords (live (handleGenerateNameForImage asciiToLowerCase [renamedImage, pendingImage]
     rateLimitedReply (\<lambda>l. l) (id' renamedImage) \<lparr>live = [renamedImage, pendingImage], events = []\<rparr>)) =
     [[js ''beach'', js ''sunset''], []] \<and>
   map newFilename (successfulImages (live (handleGenerateNameForImage asciiToLowerCase
     [renamedImage, pendingImage] rateLimitedReply (\<lambda>l. l) (id' renamedImage)
     \<lparr>live = [renamedImage, pendingImage], events = []\<rparr>))) = [js ''sunset-walk.png'']"
proof -
  have "js ''AAAA'' \<noteq> []" by (simp add: js_def)
  then have gen: "generateImageDetails asciiToLowerCase rateLimitedReply = Inl (newError rateLimitMessage)"
    using rateLimited_marker splitComma1_sample
    by (simp add: generateImageDetails_def rateLimitedReply_def)
  have ne: "id' pendingImage \<noteq> id' renamedImage"
    by (simp add: pendingImage_def renamedImage_def js_def)
  have vals: "suggestedName renamedImage = js ''sunset-walk''" "suggestedName pendingImage = []"
    "keywords renamedImage = [js ''beach'', js ''sunset'']" "keywords pendingImage = []"
    "originalExtension renamedImage = js ''.png''"
    by (simp_all add: pendingImage_def renamedImage_def)
  have nonempty: "js ''sunset-walk'' \<noteq> []" by (simp add: js_def)
  from failure_keeps_name_and_keywords[OF gen find_renamed,
      of "\<lparr>live = [renamedImage, pendingImage], events = []\<rparr>"]
  show ?thesis
    using ne vals nonempty
    by (simp add: newError_def successfulImages_def newFilename_def) (simp add: js_def)
qed

theorem result_for_removed_item_witness:
  "applyDetails (id' renamedImage) \<lparr>filename = js ''new-name'', keywords' = [js ''sea'']\<rparr>
     (handleRemoveImage (id' renamedImage) [renamedImage, pendingImage]) = [pendingImage] \<and>
   applyError (id' renamedImage) rateLimitMessage
     (handleRemoveImage (id' renamedImage) [renamedImage, pendingImage]) = [pendingImage] \<and>
   live (handleGenerateNameForImage asciiToLowerCase [renamedImage, pendingImage] rateLimitedReply
     (handleRemoveImage (id' renamedImage)) (id' renamedImage)
     \<lparr>live = [renamedImage, pendingImage], events = []\<rparr>) = [pendingImage] \<and>
   applyDetails (id' renamedImage) \<lparr>filename = js ''new-name'', keywords' = [js ''sea'']\<rparr>
     [renamedImage, pendingImage] ! 1 = pendingImage"
proof -
  have ne: "id' pendingImage \<noteq> id' renamedImage"
    by (simp add: pendingImage_def renamedImage_def js_def)
  then have rm: "handleRemoveImage (id' renamedImage) [renamedImage, pendingImage] = [pendingImage]"
    by (simp add: handleRemoveImage_def)
  have found: "find (\<lambda>img. id' img = id' renamedImage) [renamedImage, pendingImage] \<noteq> None"
    by simp
  from result_for_removed_item[of "id' renamedImage" "[renamedImage, pendingImage]"
      "\<lparr>filename = js ''new-name'', keywords' = [js ''sea'']\<rparr>" rateLimitMessage
      "[renamedImage, pendingImage]" asciiToLowerCase rateLimitedReply
      "\<lparr>live = [renamedImage, pendingImage], events = []\<rparr>"]
  show ?thesis using ne rm found by simp
qed

section \<open>The batch\<close>

lemma find_member: "x \<in> set xs \<Longrightarrow> find (\<lambda>img. id' img = id' x) xs \<noteq> None"
  by (auto simp: find_None_iff)

lemma handler_events:
  "x \<in> set processedImages \<Longrightarrow>
   events (handleGenerateNameForImage toLowerCase processedImages reply meanwhile (id' x) r) =
   events r @ [GenerateCall (id' x), GenerateSettled (id' x)]"
  using find_member[of x processedImages]
  by (auto simp: handleGenerateNameForImage_def Let_def)

lemma generateLoop_events:
  "set todo \<subseteq> set processedImages \<Longrightarrow>
   events (generateLoop toLowerCase processedImages replies meanwhile k todo r) =
   events r @ concat (map (\<lambda>img. [GenerateCall (id' img), GenerateSettled (id' img), Pause 1100]) todo)"
proof (induction todo arbitrary: k r)
  case Nil
  then show ?case by simp
next
  case (Cons img rest)
  then have "img \<in> set processedImages" "set rest \<subseteq> set processedImages" by auto
  with Cons.IH show ?case by (simp add: Let_def handler_events)
qed

text \<open>
  Claim C2. A run of the batch takes, from the collection of the render that started it,
  the items without a suggested name that are not loading, and for each of them, in the
  order of the collection, calls the service once, waits for the call to settle and then
  pauses for 1100 ms before the next one. This holds whatever the service answers and
  whatever the other handlers do to the live collection during the run, so items uploaded
  after the start get no call.
\<close>

theorem batch_calls:
  "events (handleGenerateAllNames toLowerCase processedImages replies meanwhile r) =
   events r @
   concat (map (\<lambda>img. [GenerateCall (id' img), GenerateSettled (id' img), Pause 1100])
             (filter (\<lambda>img. suggestedName img = [] \<and> \<not> isLoading img) processedImages))"
  unfolding handleGenerateAllNames_def imagesToProcess_def
  by (rule generateLoop_events) simp

theorem batch_calls_witness:
  "events (handleGenerateAllNames asciiToLowerCase [renamedImage, pendingImage]
     (\<lambda>k. rateLimitedReply) (\<lambda>k. handleImageUpload [lateUpload])
     \<lparr>live = [renamedImage, pendingImage], events = []\<rparr>) =
   [GenerateCall (id' pendingImage), GenerateSettled (id' pendingImage), Pause 1100]"
  using batch_calls[of asciiToLowerCase "[renamedImage, pendingImage]" "\<lambda>k. rateLimitedReply"
      "\<lambda>k. handleImageUpload [lateUpload]" "\<lparr>live = [renamedImage, pendingImage], events = []\<rparr>"]
  by (simp add: renamedImage_def pendingImage_def js_def)

section \<open>Keyword collections\<close>

lemma keywordsSorted_all: "keywordsSorted images \<longleftrightarrow> list_all (\<lambda>img. sorted (keywords img)) images"
  by (simp add: keywordsSorted_def list_all_iff)

lemma keywordsDistinct_all: "keywordsDistinct images \<longleftrightarrow> list_all (\<lambda>img. distinct (keywords img)) images"
  by (simp add: keywordsDistinct_def list_all_iff)

lemma addKeywordsTo_sorted: "sorted (keywords img) \<Longrightarrow> sorted (keywords (addKeywordsTo ks img))"
  by (simp add: addKeywordsTo_def Let_def)

lemma addKeywordsTo_distinct:
  "distinct (keywords img) \<Longrightarrow> distinct ks \<Longrightarrow> distinct (keywords (addKeywordsTo ks img))"
  by (auto simp: addKeywordsTo_def Let_def)

lemma sorted_applyDetails: "keywordsSorted prev \<Longrightarrow> keywordsSorted (applyDetails ident details prev)"
  unfolding keywordsSorted_all by (induction prev) (simp_all add: applyDetails_def)

lemma sorted_handleAddKeywords: "keywordsSorted prev \<Longrightarrow> keywordsSorted (handleAddKeywords ident ks prev)"
  unfolding keywordsSorted_all by (induction prev) (simp_all add: handleAddKeywords_def addKeywordsTo_sorted)

lemma sorted_handleRemoveKeyword: "keywordsSorted prev \<Longrightarrow> keywordsSorted (handleRemoveKeyword ident k prev)"
  unfolding keywordsSorted_all by (induction prev) (simp_all add: handleRemoveKeyword_def sorted_wrt_filter)

lemma sorted_handleAddKeywordsToAll:
  "keywordsSorted prev \<Longrightarrow> keywordsSorted (handleAddKeywordsToAll c ks p prev)"
proof -
  assume a: "keywordsSorted prev"
  have "list_all (\<lambda>img. sorted (keywords img)) prev \<Longrightarrow>
        list_all (\<lambda>img. sorted (keywords img))
          (map (\<lambda>img. if suggestedName img \<noteq> [] then addKeywordsTo ks img else img) prev)"
    by (induction prev) (simp_all add: addKeywordsTo_sorted)
  with a show ?thesis by (simp add: keywordsSorted_all handleAddKeywordsToAll_def)
qed

lemma distinct_applyDetails:
  "keywordsDistinct prev \<Longrightarrow> distinct (keywords' details) \<Longrightarrow>
   keywordsDistinct (applyDetails ident details prev)"
  unfolding keywordsDistinct_all by (induction prev) (simp_all add: applyDetails_def)

lemma distinct_handleAddKeywords:
  "keywordsDistinct prev \<Longrightarrow> distinct ks \<Longrightarrow> keywordsDistinct (handleAddKeywords ident ks prev)"
  unfolding keywordsDistinct_all
  by (induction prev) (simp_all add: handleAddKeywords_def addKeywordsTo_distinct)

lemma distinct_handleRemoveKeyword:
  "keywordsDistinct prev \<Longrightarrow> keywordsDistinct (handleRemoveKeyword ident k prev)"
  unfolding keywordsDistinct_all by (induction prev) (simp_all add: handleRemoveKeyword_def)

lemma distinct_handleAddKeywordsToAll:
  "keywordsDistinct prev \<Longrightarrow> distinct ks \<Longrightarrow> keywordsDistinct (handleAddKeywordsToAll c ks p prev)"
proof -
  assume a: "keywordsDistinct prev" and d: "distinct ks"
  have "list_all (\<lambda>img. distinct (keywords img)) prev \<Longrightarrow>
        list_all (\<lambda>img. distinct (keywords img))
          (map (\<lambda>img. if suggestedName img \<noteq> [] then addKeywordsTo ks img else img) prev)"
    using d by (induction prev) (simp_all add: addKeywordsTo_distinct)
  with a show ?thesis by (simp add: keywordsDistinct_all handleAddKeywordsToAll_def)
qed

lemma applyDetails_target:
  "list_all (\<lambda>img. id' img = ident \<longrightarrow> keywords img = sort (keywords' details))
     (applyDetails ident details prev)"
  by (induction prev) (simp_all add: applyDetails_def)

text \<open>
  Claim C1, as far as it holds. Keyword collections that are sorted stay sorted under the
  success of a generation, the adding and the removing of keywords for one item, and the
  adding for all items. Collections without duplicates stay without duplicates under the
  removing, under both ways of adding when the keywords to add are pairwise different, and
  under the success of a generation when the keywords of the service are pairwise
  different: the item then holds exactly the sorted keywords of the service, duplicates
  included.
\<close>

theorem keyword_collections:
  assumes "keywordsSorted prev"
  shows "keywordsSorted (applyDetails ident details prev) \<and>
         keywordsSorted (handleAddKeywords ident keywordsToAdd prev) \<and>
         keywordsSorted (handleRemoveKeyword ident keywordToRemove prev) \<and>
         keywordsSorted (handleAddKeywordsToAll confirmed keywordsToAdd processedImages prev) \<and>
         (keywordsDistinct prev \<longrightarrow>
            keywordsDistinct (handleRemoveKeyword ident keywordToRemove prev) \<and>
            (distinct keywordsToAdd \<longrightarrow>
               keywordsDistinct (handleAddKeywords ident keywordsToAdd prev) \<and>
               keywordsDistinct (handleAddKeywordsToAll confirmed keywordsToAdd processedImages prev)) \<and>
            (distinct (keywords' details) \<longrightarrow> keywordsDistinct (applyDetails ident details prev))) \<and>
         (\<forall>img\<in>set (applyDetails ident details prev). id' img = ident \<longrightarrow>
            keywords img = sort (keywords' details) \<and>
            (distinct (keywords img) \<longleftrightarrow> distinct (keywords' details)))"
proof -
  have tgt: "\<forall>img\<in>set (applyDetails ident details prev). id' img = ident \<longrightarrow>
            keywords img = sort (keywords' details) \<and>
            (distinct (keywords img) \<longleftrightarrow> distinct (keywords' details))"
  proof (intro ballI impI)
    fix img assume "img \<in> set (applyDetails ident details prev)" "id' img = ident"
    with applyDetails_target[of ident details prev]
    have "keywords img = sort (keywords' details)" by (auto simp: list_all_iff)
    then show "keywords img = sort (keywords' details) \<and>
            (distinct (keywords img) \<longleftrightarrow> distinct (keywords' details))" by simp
  qed
  show ?thesis
  proof (intro conjI impI)
    show "keywordsSorted (applyDetails ident details prev)"
      using assms by (rule sorted_applyDetails)
    show "keywordsSorted (handleAddKeywords ident keywordsToAdd prev)"
      using assms by (rule sorted_handleAddKeywords)
    show "keywordsSorted (handleRemoveKeyword ident keywordToRemove prev)"
      using assms by (rule sorted_handleRemoveKeyword)
    show "keywordsSorted (handleAddKeywordsToAll confirmed keywordsToAdd processedImages prev)"
      using assms by (rule sorted_handleAddKeywordsToAll)
    show "keywordsDistinct (handleRemoveKeyword ident keywordToRemove prev)"
      if "keywordsDistinct prev" using that by (rule distinct_handleRemoveKeyword)
    show "keywordsDistinct (handleAddKeywords ident keywordsToAdd prev)"
      if "keywordsDistinct prev" "distinct keywordsToAdd"
      using that by (rule distinct_handleAddKeywords)
    show "keywordsDistinct (handleAddKeywordsToAll confirmed keywordsToAdd processedImages prev)"
      if "keywordsDistinct prev" "distinct keywordsToAdd"
      using that by (rule distinct_handleAddKeywordsToAll)
    show "keywordsDistinct (applyDetails ident details prev)"
      if "keywordsDistinct prev" "distinct (keywords' details)"
      using that by (rule distinct_applyDetails)
    show "\<forall>img\<in>set (applyDetails ident details prev). id' img = ident \<longrightarrow>
            keywords img = sort (keywords' details) \<and>
            (distinct (keywords img) \<longleftrightarrow> distinct (keywords' details))"
      by (rule tgt)
  qed
qed

lemma renamed_sorted: "keywordsSorted [renamedImage]"
  by (simp add: keywordsSorted_def renamedImage_def js_def)

lemma renamed_distinct: "keywordsDistinct [renamedImage]"
  by (simp add: keywordsDistinct_def renamedImage_def js_def)

lemma renamed_add:
  "map keywords (handleAddKeywords (id' renamedImage) [js ''travel'', js ''beach''] [renamedImage]) =
     [[js ''beach'', js ''sunset'', js ''travel'']]"
  by (simp add: handleAddKeywords_def addKeywordsTo_def renamedImage_def js_def)

theorem keyword_collections_witness:
  "map keywords (handleAddKeywords (id' renamedImage) [js ''travel'', js ''beach''] [renamedImage]) =
     [[js ''beach'', js ''sunset'', js ''travel'']] \<and>
   keywordsSorted (handleAddKeywords (id' renamedImage) [js ''travel'', js ''beach''] [renamedImage]) \<and>
   keywordsDistinct (handleAddKeywords (id' renamedImage) [js ''travel'', js ''beach''] [renamedImage])"
proof -
  have "distinct [js ''travel'', js ''beach'']" by (simp add: js_def)
  with keyword_collections[OF renamed_sorted, of "id' renamedImage" _ "[js ''travel'', js ''beach'']"]
    renamed_distinct renamed_add
  show ?thesis by simp
qed

lemma sampleReply_details:
  "generateImageDetails asciiToLowerCase sampleReply =
     Inr \<lparr>filename = js ''my-photo'', keywords' = [js ''sea'', js ''beach'', js ''sea'']\<rparr>"
proof -
  have "js ''AAAA'' \<noteq> []" "js ''my-photo'' \<noteq> []" by (simp_all add: js_def)
  then show ?thesis
    by (simp add: generateImageDetails_def sampleReply_def splitComma1_sample cleanedFilename_sample)
qed

theorem keyword_collections_counterexample:
  "\<not> keywordsDistinct
       (live (handleGenerateNameForImage asciiToLowerCase [pendingImage] sampleReply (\<lambda>l. l)
          (id' pendingImage) \<lparr>live = [pendingImage], events = []\<rparr>))"
proof -
  have "find (\<lambda>img. id' img = id' pendingImage) [pendingImage] = Some pendingImage" by simp
  from handler_found[OF this, of asciiToLowerCase sampleReply "\<lambda>l. l" "\<lparr>live = [pendingImage], events = []\<rparr>"]
  have "live (handleGenerateNameForImage asciiToLowerCase [pendingImage] sampleReply (\<lambda>l. l)
          (id' pendingImage) \<lparr>live = [pendingImage], events = []\<rparr>) =
        applyDetails (id' pendingImage)
          \<lparr>filename = js ''my-photo'', keywords' = [js ''sea'', js ''beach'', js ''sea'']\<rparr>
          (markLoading (id' pendingImage) [pendingImage])"
    by (simp add: sampleReply_details)
  then show ?thesis
    by (simp add: keywordsDistinct_def applyDetails_def markLoading_def)
qed

section \<open>The table of keywords\<close>

lemma mset_insertSorted: "mset (insertSorted comparefn a bs) = add_mset a (mset bs)"
  by (induction bs) auto

lemma mset_arraySort: "mset (arraySort comparefn xs) = mset xs"
  by (induction xs) (auto simp: arraySort_def mset_insertSorted)

lemma set_insertSorted: "set (insertSorted comparefn a bs) = insert a (set bs)"
  by (induction bs) auto

lemma sorted_insertSorted:
  assumes total: "\<And>a b. comparefn a b \<le> 0 \<or> comparefn b a \<le> 0"
    and trans: "\<And>a b c. comparefn a b \<le> 0 \<Longrightarrow> comparefn b c \<le> 0 \<Longrightarrow> comparefn a c \<le> 0"
  shows "sorted_wrt (\<lambda>a b. comparefn a b \<le> 0) bs \<Longrightarrow>
         sorted_wrt (\<lambda>a b. comparefn a b \<le> 0) (insertSorted comparefn a bs)"
proof (induction bs)
  case Nil
  then show ?case by simp
next
  case (Cons b bs)
  show ?case
  proof (cases "comparefn a b \<le> 0")
    case True
    with Cons.prems trans have "\<forall>x\<in>set bs. comparefn a x \<le> 0" by auto
    with True Cons.prems show ?thesis by simp
  next
    case False
    with total have "comparefn b a \<le> 0" by blast
    with False Cons show ?thesis by (auto simp: set_insertSorted)
  qed
qed

lemma sorted_arraySort:
  assumes "\<And>a b. comparefn a b \<le> 0 \<or> comparefn b a \<le> 0"
    and "\<And>a b c. comparefn a b \<le> 0 \<Longrightarrow> comparefn b c \<le> 0 \<Longrightarrow> comparefn a c \<le> 0"
  shows "sorted_wrt (\<lambda>a b. comparefn a b \<le> 0) (arraySort comparefn xs)"
proof (induction xs)
  case Nil
  then show ?case by (simp add: arraySort_def)
next
  case (Cons x xs)
  from sorted_insertSorted[of comparefn, OF assms Cons] show ?case by (simp add: arraySort_def)
qed

lemma csvRow_text:
  "csvRow img = [34] @ suggestedName img @ originalExtension img @ [34] @ [44] @
                [34] @ join (keywords img) [44, 32] @ [34]"
  by (simp add: csvRow_def Let_def js_def)

lemma csv_none:
  "filter (\<lambda>img. suggestedName img \<noteq> []) processedImages = [] \<Longrightarrow>
   handleDownloadCsv localeCompare processedImages = None"
  by (simp add: handleDownloadCsv_def successfulImages_def)

lemma csv_some:
  "filter (\<lambda>img. suggestedName img \<noteq> []) processedImages \<noteq> [] \<Longrightarrow>
   handleDownloadCsv localeCompare processedImages =
     Some (js ''New File Name,Keywords'' @ [10] @
           join (map csvRow (arraySort (\<lambda>a b. localeCompare (suggestedName a) (suggestedName b))
                               (filter (\<lambda>img. suggestedName img \<noteq> []) processedImages))) [10])"
  by (simp add: handleDownloadCsv_def successfulImages_def Let_def)

text \<open>
  Claim C7, as far as it holds. For a consistent collation: when no item has a suggested
  name the handler produces nothing; otherwise the file consists of the header line
  \<^verbatim>\<open>New File Name,Keywords\<close> and the rows, joined by line feeds, of exactly the items
  with a non-empty suggested name (whatever their \<open>isLoading\<close> and \<open>error\<close>), arranged in
  ascending order of the suggested names. A row is the suggested name followed by the
  original extension, in double quotes, a comma, and the keywords joined by a comma and a
  space, in double quotes.
\<close>

theorem csv_export:
  assumes "\<forall>a b. localeCompare a b \<le> 0 \<or> localeCompare b a \<le> 0"
    and "\<forall>a b c. localeCompare a b \<le> 0 \<and> localeCompare b c \<le> 0 \<longrightarrow> localeCompare a c \<le> 0"
  shows "if filter (\<lambda>img. suggestedName img \<noteq> []) processedImages = []
         then handleDownloadCsv localeCompare processedImages = None
         else \<exists>sortedData.
                handleDownloadCsv localeCompare processedImages =
                  Some (js ''New File Name,Keywords'' @ [10] @ join (map csvRow sortedData) [10]) \<and>
                mset sortedData = mset (filter (\<lambda>img. suggestedName img \<noteq> []) processedImages) \<and>
                sorted_wrt (\<lambda>a b. localeCompare (suggestedName a) (suggestedName b) \<le> 0) sortedData \<and>
                (\<forall>img. csvRow img =
                   [34] @ suggestedName img @ originalExtension img @ [34] @ [44] @
                   [34] @ join (keywords img) [44, 32] @ [34])"
proof (cases "filter (\<lambda>img. suggestedName img \<noteq> []) processedImages = []")
  case True
  show ?thesis by (subst if_P[OF True]) (rule csv_none[OF True])
next
  case False
  define comparefn where
    "comparefn = (\<lambda>(a::ProcessedImage) (b::ProcessedImage).
                    localeCompare (suggestedName a) (suggestedName b))"
  define sortedData where
    "sortedData = arraySort comparefn (filter (\<lambda>img. suggestedName img \<noteq> []) processedImages)"
  have out: "handleDownloadCsv localeCompare processedImages =
               Some (js ''New File Name,Keywords'' @ [10] @ join (map csvRow sortedData) [10])"
    unfolding sortedData_def comparefn_def by (rule csv_some[OF False])
  have perm: "mset sortedData = mset (filter (\<lambda>img. suggestedName img \<noteq> []) processedImages)"
    unfolding sortedData_def by (rule mset_arraySort)
  have "sorted_wrt (\<lambda>a b. comparefn a b \<le> 0) sortedData"
    unfolding sortedData_def
  proof (rule sorted_arraySort)
    show "comparefn a b \<le> 0 \<or> comparefn b a \<le> 0" for a b
      using assms(1) by (simp add: comparefn_def)
    show "comparefn a b \<le> 0 \<Longrightarrow> comparefn b c \<le> 0 \<Longrightarrow> comparefn a c \<le> 0" for a b c
      using assms(2) unfolding comparefn_def by blast
  qed
  then have ord: "sorted_wrt (\<lambda>a b. localeCompare (suggestedName a) (suggestedName b) \<le> 0) sortedData"
    unfolding comparefn_def .
  have row: "\<forall>img. csvRow img =
                   [34] @ suggestedName img @ originalExtension img @ [34] @ [44] @
                   [34] @ join (keywords img) [44, 32] @ [34]"
    by (rule allI) (rule csvRow_text)
  show ?thesis
    apply (subst if_not_P[OF False])
    apply (rule exI[of _ sortedData])
    apply (intro conjI)
       apply (rule out)
      apply (rule perm)
     apply (rule ord)
    apply (rule row)
    done
qed

lemma codeUnitCompare_total: "\<forall>a b. codeUnitCompare a b \<le> 0 \<or> codeUnitCompare b a \<le> 0"
  by (auto simp: codeUnitCompare_def)

lemma codeUnitCompare_trans:
  "\<forall>a b c. codeUnitCompare a b \<le> 0 \<and> codeUnitCompare b c \<le> 0 \<longrightarrow> codeUnitCompare a c \<le> 0"
  by (auto simp: codeUnitCompare_def split: if_splits)

lemma sample_csv:
  "handleDownloadCsv codeUnitCompare [renamedImage, pendingImage, failedImage] =
     Some (js ''New File Name,Keywords'' @ [10] @
           [34] @ js ''city-lights.png'' @ [34] @ js '','' @ [34] @ js ''night'' @ [34] @ [10] @
           [34] @ js ''sunset-walk.png'' @ [34] @ js '','' @ [34] @ js ''beach, sunset'' @ [34])"
  by (simp add: handleDownloadCsv_def successfulImages_def arraySort_def csvRow_def
      renamedImage_def pendingImage_def failedImage_def codeUnitCompare_def js_def)

theorem csv_export_witness:
  "handleDownloadCsv codeUnitCompare [renamedImage, pendingImage, failedImage] =
     Some (js ''New File Name,Keywords'' @ [10] @
           [34] @ js ''city-lights.png'' @ [34] @ js '','' @ [34] @ js ''night'' @ [34] @ [10] @
           [34] @ js ''sunset-walk.png'' @ [34] @ js '','' @ [34] @ js ''beach, sunset'' @ [34])"
  using csv_export[OF codeUnitCompare_total codeUnitCompare_trans, of "[renamedImage, pendingImage, failedImage]"]
    sample_csv by simp

theorem csv_export_counterexample:
  "handleDownloadCsv codeUnitCompare [pendingImage] = None \<and>
   handleDownloadCsv codeUnitCompare [pendingImage] \<noteq> Some (js ''New File Name,Keywords'' @ [10])"
  by (simp add: handleDownloadCsv_def successfulImages_def pendingImage_def)

section \<open>Identities\<close>

lemma id_newImage:
  "id' (newImage u) =
   (name (uploaded u) @ [hyphen] @ numberToString (lastModified (uploaded u))) @ hyphen # random u"
  by (simp add: newImage_def)

lemma same_id_cases:
  assumes "id' (newImage u) = id' (newImage v)"
  shows "random u = random v \<or> endsWith (random u) (hyphen # random v) \<or>
         endsWith (random v) (hyphen # random u)"
proof -
  have "suffix (hyphen # random u) (id' (newImage u))" "suffix (hyphen # random v) (id' (newImage v))"
    unfolding id_newImage by (rule suffixI[OF refl])+
  with assms have "suffix (hyphen # random u) (hyphen # random v) \<or>
                   suffix (hyphen # random v) (hyphen # random u)"
    using suffix_same_cases by metis
  then show ?thesis
    by (auto simp: suffix_Cons endsWith_def)
qed

lemma apart_distinct_ids:
  assumes "apart (map random us)"
  shows "distinct (map (\<lambda>u. id' (newImage u)) us)"
proof -
  from assms have d: "distinct (map random us)"
    and s: "\<And>u v. u \<in> set us \<Longrightarrow> v \<in> set us \<Longrightarrow> \<not> endsWith (random v) (hyphen # random u)"
    by (auto simp: apart_def)
  from d have du: "distinct us" and inj: "inj_on random (set us)"
    by (simp_all add: distinct_map)
  have "inj_on (\<lambda>u. id' (newImage u)) (set us)"
  proof (rule inj_onI)
    fix u v assume uv: "u \<in> set us" "v \<in> set us" and eq: "id' (newImage u) = id' (newImage v)"
    from same_id_cases[OF eq] s[OF uv] s[OF uv(2,1)] have "random u = random v" by blast
    with inj uv show "u = v" by (auto dest: inj_onD)
  qed
  with du show ?thesis by (simp add: distinct_map)
qed

lemma created_append: "created (xs @ ys) = created xs @ created ys"
  by (induction xs rule: created.induct) simp_all

lemma session_snoc: "session (actions @ [a]) = perform (session actions) a"
  by (simp add: session_def)

lemma handleImageUpload_append:
  "handleImageUpload files prev = prev @ map newImage (accepted files)"
  by (simp add: handleImageUpload_def Let_def)

lemma session_ids:
  "distinct (map (\<lambda>u. id' (newImage u)) (created actions)) \<Longrightarrow>
   distinct (map id' (session actions)) \<and>
   set (map id' (session actions)) \<subseteq> set (map (\<lambda>u. id' (newImage u)) (created actions))"
proof (induction actions rule: rev_induct)
  case Nil
  then show ?case by (simp add: session_def)
next
  case (snoc a actions)
  let ?ids = "\<lambda>us. map (\<lambda>u. id' (newImage u)) us"
  from snoc.prems have dprev: "distinct (?ids (created actions))"
    by (simp add: created_append)
  with snoc.IH have IH: "distinct (map id' (session actions))"
    "set (map id' (session actions)) \<subseteq> set (?ids (created actions))" by auto
  show ?case
  proof (cases a)
    case (ImageUpload files)
    then have c: "created (actions @ [a]) = created actions @ accepted files"
      by (simp add: created_append)
    have s: "map id' (session (actions @ [a])) = map id' (session actions) @ ?ids (accepted files)"
      by (simp add: session_snoc ImageUpload handleImageUpload_append)
    from snoc.prems c have "distinct (?ids (created actions) @ ?ids (accepted files))" by simp
    then have "distinct (?ids (accepted files))"
      "set (?ids (created actions)) \<inter> set (?ids (accepted files)) = {}" by auto
    with IH have "distinct (map id' (session actions) @ ?ids (accepted files))" by auto
    moreover from IH(2) have "set (map id' (session actions) @ ?ids (accepted files)) \<subseteq>
         set (?ids (created actions @ accepted files))" by auto
    ultimately show ?thesis unfolding s c by blast
  next
    case (RemoveImage ident)
    then have c: "created (actions @ [a]) = created actions" by (simp add: created_append)
    have s: "map id' (session (actions @ [a])) = filter (\<lambda>i. i \<noteq> ident) (map id' (session actions))"
      by (simp add: session_snoc RemoveImage handleRemoveImage_def filter_map comp_def)
    from IH show ?thesis unfolding s c by auto
  next
    case ClearAll
    then have c: "created (actions @ [a]) = created actions" by (simp add: created_append)
    have s: "map id' (session (actions @ [a])) = []"
      by (simp add: session_snoc ClearAll handleClearAll_def)
    show ?thesis unfolding s c by simp
  qed
qed

text \<open>
  Claim C8, as far as it holds. An identity is the name of the file, its modification time
  and a random number, joined by hyphens, and nothing checks it against the identities in
  use. When the texts of the random numbers drawn in a session are pairwise different, and
  none ends with a hyphen followed by another one, then no two items created in the
  session get the same identity: the identities in the live collection are pairwise
  different after every action, and all of them were given at a creation.
\<close>

theorem identities_distinct:
  assumes "apart (map random (created actions))"
  shows "distinct (map id' (session actions)) \<and>
         distinct (map (\<lambda>u. id' (newImage u)) (created actions)) \<and>
         set (map id' (session actions)) \<subseteq> set (map (\<lambda>u. id' (newImage u)) (created actions))"
  using session_ids[OF apart_distinct_ids[OF assms]] apart_distinct_ids[OF assms] by blast

lemma sample_apart: "apart (map random (created [ImageUpload [sampleUpload], ImageUpload [otherUpload]]))"
  by (simp add: apart_def accepted_def startsWith_def endsWith_def sampleUpload_def otherUpload_def
      js_def hyphen_def suffix_Cons)

theorem identities_distinct_witness:
  "map id' (session [ImageUpload [sampleUpload], ImageUpload [otherUpload]]) =
     [js ''a.png-1-0.5'', js ''a.png-1-0.25''] \<and>
   distinct (map id' (session [ImageUpload [sampleUpload], ImageUpload [otherUpload]]))"
proof -
  have "map id' (session [ImageUpload [sampleUpload], ImageUpload [otherUpload]]) =
     [js ''a.png-1-0.5'', js ''a.png-1-0.25'']"
    by (simp add: session_def handleImageUpload_def accepted_def startsWith_def newImage_def
        sampleUpload_def otherUpload_def numberToString_def digits.simps js_def hyphen_def)
  with identities_distinct[OF sample_apart] show ?thesis by blast
qed

theorem identities_distinct_counterexample:
  "\<not> distinct (map id' (session [ImageUpload [sampleUpload], ImageUpload [sampleUpload]])) \<and>
   map id' (session [ImageUpload [sampleUpload], RemoveImage (id' (newImage sampleUpload)),
                     ImageUpload [sampleUpload]]) =
   map id' (session [ImageUpload [sampleUpload]])"
  by (simp add: session_def handleImageUpload_def handleRemoveImage_def accepted_def startsWith_def
      sampleUpload_def js_def)

end
